theory Spec2Isabelle
  imports Main "HOL-Library.Sublist" "HOL-Library.AList"
begin

section \<open>JavaScript values and objects\<close>

text \<open>
  Values of type \<open>any\<close> (request and response bodies) are JSON trees. Numbers are
  integers here; JavaScript doubles are not modelled.
\<close>

datatype json =
    JNull
  | JBool bool
  | JNum int
  | JStr string
  | JArr "json list"
  | JObj "(string \<times> json) list"

text \<open>The truthiness test of \<open>if (v)\<close>, \<open>!v\<close> and \<open>v || d\<close>.\<close>

fun truthy :: "json \<Rightarrow> bool" where
  "truthy JNull = False"
| "truthy (JBool b) = b"
| "truthy (JNum n) = (n \<noteq> 0)"
| "truthy (JStr s) = (s \<noteq> [])"
| "truthy (JArr xs) = True"
| "truthy (JObj ms) = True"

text \<open>
  A \<open>Record<string, string>\<close> is an association list with distinct keys. Object spread
  \<open>{...a, ...b}\<close> copies the entries of \<open>a\<close> and then those of \<open>b\<close>, a later entry
  replacing an earlier one of the same key.
\<close>

type_synonym jsobject = "(string \<times> string) list"

definition spread :: "jsobject \<Rightarrow> jsobject \<Rightarrow> jsobject" where
  "spread a b = fold (\<lambda>(k, v) obj. AList.update k v obj) b a"

text \<open>
  The assignment \<open>obj[key] = value\<close> on an object literal: it creates or replaces the
  property, except for the key \<open>__proto__\<close>, where it runs the prototype setter, which
  ignores a string and leaves the object's own properties as they were.
\<close>

definition assign :: "jsobject \<Rightarrow> string \<Rightarrow> string \<Rightarrow> jsobject" where
  "assign obj key v = (if key = ''__proto__'' then obj else AList.update key v obj)"

text \<open>\<open>s.startsWith(p)\<close>\<close>

definition startsWith :: "string \<Rightarrow> string \<Rightarrow> bool" where
  "startsWith s p = (take (length p) s = p)"

text \<open>A thrown \<open>Error\<close>, with its message.\<close>

datatype error = Error string

section \<open>The HTTP request client (ApiClient.ts)\<close>

subsection \<open>Data\<close>

text \<open>
  \<open>ApiRequestOptions\<close>: every field is optional (\<open>None\<close> is \<open>undefined\<close>). The fields
  carry the prefix \<open>opt_\<close>, since \<open>headers\<close> and \<open>body\<close> are fields of the response too.
  The numbers \<open>timeout\<close> and \<open>retries\<close> are integers.
\<close>

record ApiRequestOptions =
  opt_headers :: "jsobject option"
  opt_params :: "jsobject option"
  opt_body :: "json option"
  opt_timeout :: "int option"
  opt_retries :: "int option"

record ApiResponseData =
  status :: int
  statusText :: string
  body :: json
  rawBody :: string
  headers :: jsobject
  responseTime :: int
  url :: string
  "method" :: string

text \<open>
  Playwright's \<open>APIResponse\<close>, as far as \<open>parseResponse\<close> reads it: \<open>status()\<close>,
  \<open>statusText()\<close>, the entries of \<open>headers()\<close> in the order of \<open>Object.entries\<close>, and
  \<open>text()\<close>. The promise of \<open>text()\<close> resolves to the body text (\<open>Inr\<close>) or rejects
  (\<open>Inl\<close>), as it does for a response that has been disposed; the other three
  return at once.
\<close>

record APIResponse =
  resp_status :: int
  resp_statusText :: string
  resp_headers :: jsobject
  resp_text :: "error + string"

text \<open>The options object \<open>executeRequest\<close> hands to Playwright.\<close>

record requestOptions =
  ro_headers :: jsobject
  ro_timeout :: int
  ro_params :: "jsobject option"
  ro_data :: "json option"

text \<open>
  Playwright's \<open>APIRequestContext\<close> is the injected transport: given the verb, the URL
  and the options, in a state \<open>'w\<close> of the outside world (server, network), it answers
  with a response or throws, and the world moves on.
\<close>

type_synonym 'w APIRequestContext =
  "string \<Rightarrow> string \<Rightarrow> requestOptions \<Rightarrow> 'w \<Rightarrow> (error + APIResponse) \<times> 'w"

text \<open>
  The calls the client makes to the outside, in the order it makes them: a transport
  call with its outcome, and a \<open>setTimeout\<close> wait with its delay in milliseconds.
\<close>

datatype call =
    Fetch string string requestOptions "error + APIResponse"
  | SetTimeout int

fun isFetch :: "call \<Rightarrow> bool" where
  "isFetch (Fetch m u ro r) = True"
| "isFetch (SetTimeout ms) = False"

text \<open>
  The state a request runs in: the outside world, the calls made so far (oldest first),
  and the \<open>apiResponseTimes\<close> array of the \<open>MetricsCollector\<close> singleton.
\<close>

record 'w runtime =
  world :: 'w
  calls :: "call list"
  apiResponseTimes :: "int list"

text \<open>
  What the client takes from its platform: the clock \<open>Date.now()\<close>, the effect of
  waiting on the world, \<open>JSON.parse\<close> (\<open>None\<close> when it throws a \<open>SyntaxError\<close>) and
  \<open>ENV_CONFIG.API_TIMEOUT\<close>.
\<close>

record 'w platform =
  Date_now :: "'w \<Rightarrow> int"
  setTimeout :: "int \<Rightarrow> 'w \<Rightarrow> 'w"
  JSON_parse :: "string \<Rightarrow> json option"
  API_TIMEOUT :: int

record 'w ApiClient =
  request :: "'w APIRequestContext"
  baseUrl :: string
  defaultHeaders :: jsobject

subsection \<open>Operations\<close>

text \<open>
  The calls to the \<open>Logger\<close> only print, and are left out, here and in the locator
  engine below.
\<close>

text \<open>The constructor.\<close>

definition new_ApiClient :: "'w APIRequestContext \<Rightarrow> string \<Rightarrow> jsobject \<Rightarrow> 'w ApiClient" where
  "new_ApiClient req base dflt =
     \<lparr>request = req, baseUrl = base,
      defaultHeaders =
        spread [(''Content-Type'', ''application/json''), (''Accept'', ''application/json'')] dflt\<rparr>"

text \<open>\<open>MetricsCollector.addApiResponseTime\<close>\<close>

definition addApiResponseTime :: "int \<Rightarrow> 'w runtime \<Rightarrow> 'w runtime" where
  "addApiResponseTime duration s = s\<lparr>apiResponseTimes := apiResponseTimes s @ [duration]\<rparr>"

text \<open>\<open>await new Promise((r) => setTimeout(r, ms))\<close>\<close>

definition wait :: "'w platform \<Rightarrow> int \<Rightarrow> 'w runtime \<Rightarrow> 'w runtime" where
  "wait P ms s = s\<lparr>world := setTimeout P ms (world s), calls := calls s @ [SetTimeout ms]\<rparr>"

text \<open>
  \<open>executeRequest\<close>: the body goes out only when it is truthy and the verb is POST, PUT
  or PATCH; a verb outside the five throws before the transport is called.
\<close>

definition executeRequest ::
  "'w ApiClient \<Rightarrow> string \<Rightarrow> string \<Rightarrow> jsobject \<Rightarrow> ApiRequestOptions \<Rightarrow> int \<Rightarrow>
   'w runtime \<Rightarrow> (error + APIResponse) \<times> 'w runtime" where
  "executeRequest c meth u hdrs options tmo s =
     (let ro = \<lparr>ro_headers = hdrs, ro_timeout = tmo,
                ro_params = opt_params options,
                ro_data =
                  (case opt_body options of
                     None \<Rightarrow> None
                   | Some b \<Rightarrow>
                       if truthy b \<and> meth \<in> set [''POST'', ''PUT'', ''PATCH''] then Some b
                       else None)\<rparr>
      in if meth \<in> set [''GET'', ''POST'', ''PUT'', ''PATCH'', ''DELETE''] then
           (case request c meth u ro (world s) of
              (r, w') \<Rightarrow> (r, s\<lparr>world := w', calls := calls s @ [Fetch meth u ro r]\<rparr>))
         else (Inl (Error (''Unsupported HTTP method: '' @ meth)), s))"

text \<open>
  \<open>parseResponse\<close>: it awaits the text of the response, and throws when that promise
  rejects. The body is the parsed JSON, or the raw text when \<open>JSON.parse\<close> throws; the
  headers are copied entry by entry.
\<close>

definition parseResponse ::
  "'w platform \<Rightarrow> APIResponse \<Rightarrow> string \<Rightarrow> string \<Rightarrow> int \<Rightarrow> error + ApiResponseData" where
  "parseResponse P response meth u rt =
     (case resp_text response of
        Inl e \<Rightarrow> Inl e
      | Inr raw \<Rightarrow>
          (let b = (case JSON_parse P raw of Some v \<Rightarrow> v | None \<Rightarrow> JStr raw);
               hs = fold (\<lambda>(key, v) h. assign h key v) (resp_headers response) []
           in Inr \<lparr>status = resp_status response, statusText = resp_statusText response,
                   body = b, rawBody = raw, headers = hs, responseTime = rt, url = u,
                   method = meth\<rparr>))"

text \<open>
  The \<open>try\<close> block of \<open>makeRequest\<close>, one attempt: the transport call, the elapsed
  time, the normalization and the metric. It ends with the normalized response, or
  with the error that \<open>executeRequest\<close> or \<open>parseResponse\<close> threw.
\<close>

definition attemptOnce ::
  "'w platform \<Rightarrow> 'w ApiClient \<Rightarrow> string \<Rightarrow> string \<Rightarrow> jsobject \<Rightarrow> ApiRequestOptions \<Rightarrow> int \<Rightarrow>
   'w runtime \<Rightarrow> (error + ApiResponseData) \<times> 'w runtime" where
  "attemptOnce P c meth u hdrs options tmo s =
     (let startTime = Date_now P (world s) in
      case executeRequest c meth u hdrs options tmo s of
        (Inl e, s1) \<Rightarrow> (Inl e, s1)
      | (Inr response, s1) \<Rightarrow>
          (let rt = Date_now P (world s1) - startTime in
           case parseResponse P response meth u rt of
             Inl e \<Rightarrow> (Inl e, s1)
           | Inr result \<Rightarrow> (Inr result, addApiResponseTime rt s1)))"

text \<open>
  The attempt loop of \<open>makeRequest\<close>, from the attempt number \<open>attempt\<close> on, with the
  \<open>lastError\<close> so far (\<open>None\<close> is \<open>null\<close>). An attempt that ends with a response returns
  it; the \<open>catch\<close> block keeps the error of one that throws and waits when attempts
  remain. Once the attempts are used up the loop throws \<open>lastError\<close>.
\<close>

function attemptLoop ::
  "'w platform \<Rightarrow> 'w ApiClient \<Rightarrow> string \<Rightarrow> string \<Rightarrow> jsobject \<Rightarrow> ApiRequestOptions \<Rightarrow> int \<Rightarrow>
   int \<Rightarrow> int \<Rightarrow> error option \<Rightarrow> 'w runtime \<Rightarrow> (error option + ApiResponseData) \<times> 'w runtime" where
  "attemptLoop P c meth u hdrs options tmo maxRetries attempt lastError s =
     (if attempt \<le> maxRetries then
        (case attemptOnce P c meth u hdrs options tmo s of
           (Inr result, s1) \<Rightarrow> (Inr result, s1)
         | (Inl e, s1) \<Rightarrow>
             attemptLoop P c meth u hdrs options tmo maxRetries (attempt + 1) (Some e)
               (if attempt < maxRetries then wait P (1000 * attempt) s1 else s1))
      else (Inl lastError, s))"
  by pat_completeness auto
termination
  by (relation "measure (\<lambda>(P, c, meth, u, hdrs, options, tmo, maxRetries, attempt, lastError, s).
        nat (maxRetries + 1 - attempt))") auto

text \<open>
  \<open>makeRequest\<close>: the URL, the merged headers, the timeout (\<open>options.timeout ||
  ENV_CONFIG.API_TIMEOUT\<close>) and the retry budget (\<open>options.retries ?? 1\<close>), then the loop
  from attempt 1.
\<close>

definition makeRequest ::
  "'w platform \<Rightarrow> 'w ApiClient \<Rightarrow> string \<Rightarrow> string \<Rightarrow> ApiRequestOptions \<Rightarrow> 'w runtime \<Rightarrow>
   (error option + ApiResponseData) \<times> 'w runtime" where
  "makeRequest P c meth path options s =
     (let u = (if startsWith path ''http'' then path else baseUrl c @ path);
          hdrs = spread (defaultHeaders c) (case opt_headers options of None \<Rightarrow> [] | Some h \<Rightarrow> h);
          tmo = (case opt_timeout options of
                   None \<Rightarrow> API_TIMEOUT P
                 | Some t \<Rightarrow> if t \<noteq> 0 then t else API_TIMEOUT P);
          maxRetries = (case opt_retries options of None \<Rightarrow> 1 | Some n \<Rightarrow> n)
      in attemptLoop P c meth u hdrs options tmo maxRetries 1 None s)"

text \<open>The public verbs.\<close>

definition get :: "'w platform \<Rightarrow> 'w ApiClient \<Rightarrow> string \<Rightarrow> ApiRequestOptions \<Rightarrow> 'w runtime \<Rightarrow>
   (error option + ApiResponseData) \<times> 'w runtime" where
  "get P c path options s = makeRequest P c ''GET'' path options s"

definition post :: "'w platform \<Rightarrow> 'w ApiClient \<Rightarrow> string \<Rightarrow> ApiRequestOptions \<Rightarrow> 'w runtime \<Rightarrow>
   (error option + ApiResponseData) \<times> 'w runtime" where
  "post P c path options s = makeRequest P c ''POST'' path options s"

definition put :: "'w platform \<Rightarrow> 'w ApiClient \<Rightarrow> string \<Rightarrow> ApiRequestOptions \<Rightarrow> 'w runtime \<Rightarrow>
   (error option + ApiResponseData) \<times> 'w runtime" where
  "put P c path options s = makeRequest P c ''PUT'' path options s"

definition patch :: "'w platform \<Rightarrow> 'w ApiClient \<Rightarrow> string \<Rightarrow> ApiRequestOptions \<Rightarrow> 'w runtime \<Rightarrow>
   (error option + ApiResponseData) \<times> 'w runtime" where
  "patch P c path options s = makeRequest P c ''PATCH'' path options s"

definition delete :: "'w platform \<Rightarrow> 'w ApiClient \<Rightarrow> string \<Rightarrow> ApiRequestOptions \<Rightarrow> 'w runtime \<Rightarrow>
   (error option + ApiResponseData) \<times> 'w runtime" where
  "delete P c path options s = makeRequest P c ''DELETE'' path options s"

section \<open>The locator resolution engine (auto-heal.ts)\<close>

subsection \<open>Data\<close>

text \<open>
  A Playwright \<open>Locator\<close> is a description of a query: \<open>page.locator(selector)\<close>,
  \<open>page.getByRole(role, {name})\<close> (the name is optional), \<open>page.getByText(text,
  {exact})\<close>, \<open>page.getByPlaceholder\<close>, \<open>page.getByTestId\<close>, and \<open>locator.first()\<close>.
\<close>

datatype Locator =
    Css string
  | GetByRole string "string option"
  | GetByText string bool
  | GetByPlaceholder string
  | GetByTestId string
  | First Locator

text \<open>
  \<open>ElementContext\<close>; an optional field is \<open>None\<close> when it is absent. The field \<open>text\<close>
  of the source is \<open>text'\<close> here.
\<close>

record ElementContext =
  originalSelector :: string
  role :: "string option"
  text' :: "string option"
  placeholder :: "string option"
  testId :: "string option"

record AutoHealConfig =
  enabled :: bool
  timeout :: int
  logWarnings :: bool

definition DEFAULT_CONFIG :: AutoHealConfig where
  "DEFAULT_CONFIG = \<lparr>enabled = True, timeout = 5000, logWarnings = True\<rparr>"

text \<open>
  A strategy builds its locator from the context alone: the \<open>page\<close> argument of \<open>locate\<close>
  only supplies the constructors of \<open>Locator\<close>.
\<close>

record HealingStrategy =
  name :: string
  locate :: "ElementContext \<Rightarrow> Locator"

text \<open>
  \<open>locator.waitFor({state: 'visible', timeout})\<close> is the injected query capability: on
  a page in state \<open>'p\<close> it resolves (\<open>True\<close>) or throws a timeout error (\<open>False\<close>), and
  the page moves on.
\<close>

type_synonym 'p waitFor = "Locator \<Rightarrow> int \<Rightarrow> 'p \<Rightarrow> bool \<times> 'p"

text \<open>A \<open>waitFor\<close> call as made: the locator, the timeout, and whether it resolved.\<close>

datatype waitCall = WaitFor Locator int bool

text \<open>The state a resolution runs in: the page, and the waits made so far (oldest first).\<close>

record 'p session =
  page :: 'p
  waits :: "waitCall list"

subsection \<open>Operations\<close>

text \<open>The test \<open>!ctx.field\<close> fails for a string that is present and not empty.\<close>

fun truthyStr :: "string option \<Rightarrow> bool" where
  "truthyStr None = False"
| "truthyStr (Some s) = (s \<noteq> [])"

text \<open>The five \<open>locate\<close> functions of \<open>HEALING_STRATEGIES\<close>, in the order of the source.\<close>

definition locateByRole :: "ElementContext \<Rightarrow> Locator" where
  "locateByRole ctx =
     (case role ctx of
        None \<Rightarrow> Css ''__nonexistent__''
      | Some r \<Rightarrow>
          if r = [] then Css ''__nonexistent__''
          else GetByRole r (if truthyStr (text' ctx) then text' ctx else None))"

definition locateByTextExact :: "ElementContext \<Rightarrow> Locator" where
  "locateByTextExact ctx =
     (case text' ctx of
        None \<Rightarrow> Css ''__nonexistent__''
      | Some t \<Rightarrow> if t = [] then Css ''__nonexistent__'' else GetByText t True)"

definition locateByPlaceholder :: "ElementContext \<Rightarrow> Locator" where
  "locateByPlaceholder ctx =
     (case placeholder ctx of
        None \<Rightarrow> Css ''__nonexistent__''
      | Some p \<Rightarrow> if p = [] then Css ''__nonexistent__'' else GetByPlaceholder p)"

definition locateByTestId :: "ElementContext \<Rightarrow> Locator" where
  "locateByTestId ctx =
     (case testId ctx of
        None \<Rightarrow> Css ''__nonexistent__''
      | Some i \<Rightarrow> if i = [] then Css ''__nonexistent__'' else GetByTestId i)"

definition locateByTextPartial :: "ElementContext \<Rightarrow> Locator" where
  "locateByTextPartial ctx =
     (case text' ctx of
        None \<Rightarrow> Css ''__nonexistent__''
      | Some t \<Rightarrow> if t = [] then Css ''__nonexistent__'' else GetByText t False)"

definition HEALING_STRATEGIES :: "HealingStrategy list" where
  "HEALING_STRATEGIES =
     [\<lparr>name = ''By Role'', locate = locateByRole\<rparr>,
      \<lparr>name = ''By Text (exact)'', locate = locateByTextExact\<rparr>,
      \<lparr>name = ''By Placeholder'', locate = locateByPlaceholder\<rparr>,
      \<lparr>name = ''By Test ID'', locate = locateByTestId\<rparr>,
      \<lparr>name = ''By Text (partial)'', locate = locateByTextPartial\<rparr>]"

text \<open>One \<open>await locator.waitFor(...)\<close> inside a \<open>try\<close>: the call is made and recorded.\<close>

definition waitVisible :: "'p waitFor \<Rightarrow> Locator \<Rightarrow> int \<Rightarrow> 'p session \<Rightarrow> bool \<times> 'p session" where
  "waitVisible W loc tmo s =
     (case W loc tmo (page s) of
        (ok, p') \<Rightarrow> (ok, s\<lparr>page := p', waits := waits s @ [WaitFor loc tmo ok]\<rparr>))"

text \<open>
  Step 2 of \<open>autoHealLocator\<close>, the loop over the strategies: the first strategy whose
  \<open>first()\<close> match becomes visible within 2000 ms is returned; \<open>None\<close> when the loop
  runs to its end.
\<close>

fun tryStrategies ::
  "'p waitFor \<Rightarrow> HealingStrategy list \<Rightarrow> ElementContext \<Rightarrow> 'p session \<Rightarrow>
   Locator option \<times> 'p session" where
  "tryStrategies W [] ctx s = (None, s)"
| "tryStrategies W (strategy # rest) ctx s =
     (let alternativeLocator = locate strategy ctx in
      case waitVisible W (First alternativeLocator) 2000 s of
        (True, s1) \<Rightarrow> (Some (First alternativeLocator), s1)
      | (False, s1) \<Rightarrow> tryStrategies W rest ctx s1)"

text \<open>The two errors \<open>autoHealLocator\<close> throws, by their messages.\<close>

definition LocatorNotFound :: "string \<Rightarrow> error" where
  "LocatorNotFound sel = Error (''Element not found: \"'' @ sel @ ''\". Auto-heal is disabled.'')"

definition LocatorHealFailed :: "string \<Rightarrow> error" where
  "LocatorHealFailed sel =
     Error (''Auto-heal exhausted all strategies for: \"'' @ sel @
            ''\". Element not found on the page.'')"

definition autoHealLocator ::
  "'p waitFor \<Rightarrow> Locator \<Rightarrow> ElementContext \<Rightarrow> AutoHealConfig \<Rightarrow> 'p session \<Rightarrow>
   (error + Locator) \<times> 'p session" where
  "autoHealLocator W primaryLocator ctx config s =
     (case waitVisible W primaryLocator (timeout config) s of
        (True, s1) \<Rightarrow> (Inr primaryLocator, s1)
      | (False, s1) \<Rightarrow>
          if \<not> enabled config then (Inl (LocatorNotFound (originalSelector ctx)), s1)
          else
            (case tryStrategies W HEALING_STRATEGIES ctx s1 of
               (Some found, s2) \<Rightarrow> (Inr found, s2)
             | (None, s2) \<Rightarrow> (Inl (LocatorHealFailed (originalSelector ctx)), s2)))"

text \<open>
  \<open>resilientLocator\<close>: the primary locator is \<open>page.locator(selector)\<close>, the selector
  becomes the context's \<open>originalSelector\<close>, and the configuration is the default.
\<close>

definition resilientLocator ::
  "'p waitFor \<Rightarrow> string \<Rightarrow> ElementContext \<Rightarrow> 'p session \<Rightarrow> (error + Locator) \<times> 'p session" where
  "resilientLocator W selector healContext s =
     autoHealLocator W (Css selector) (healContext\<lparr>originalSelector := selector\<rparr>)
       DEFAULT_CONFIG s"

section \<open>Notions used in the statements\<close>

text \<open>The verbs the public operations pass to \<open>makeRequest\<close>.\<close>

definition supported :: "string \<Rightarrow> bool" where
  "supported meth = (meth \<in> set [''GET'', ''POST'', ''PUT'', ''PATCH'', ''DELETE''])"

text \<open>The options object \<open>executeRequest\<close> builds, as a function of its arguments.\<close>

definition requestOptionsOf :: "jsobject \<Rightarrow> ApiRequestOptions \<Rightarrow> int \<Rightarrow> string \<Rightarrow> requestOptions" where
  "requestOptionsOf hdrs options tmo meth =
     \<lparr>ro_headers = hdrs, ro_timeout = tmo, ro_params = opt_params options,
      ro_data =
        (case opt_body options of
           None \<Rightarrow> None
         | Some b \<Rightarrow>
             if truthy b \<and> meth \<in> set [''POST'', ''PUT'', ''PATCH''] then Some b else None)\<rparr>"

text \<open>The URL, the retry budget and the transport options \<open>makeRequest\<close> works with.\<close>

definition finalUrl :: "'w ApiClient \<Rightarrow> string \<Rightarrow> string" where
  "finalUrl c path = (if prefix ''http'' path then path else baseUrl c @ path)"

definition retryBudget :: "ApiRequestOptions \<Rightarrow> int" where
  "retryBudget options = (case opt_retries options of None \<Rightarrow> 1 | Some n \<Rightarrow> n)"

definition sentOptions :: "'w platform \<Rightarrow> 'w ApiClient \<Rightarrow> string \<Rightarrow> ApiRequestOptions \<Rightarrow> requestOptions" where
  "sentOptions P c meth options =
     requestOptionsOf
       (spread (defaultHeaders c) (case opt_headers options of None \<Rightarrow> [] | Some h \<Rightarrow> h))
       options
       (case opt_timeout options of
          None \<Rightarrow> API_TIMEOUT P
        | Some t \<Rightarrow> if t \<noteq> 0 then t else API_TIMEOUT P)
       meth"

text \<open>
  The error an attempt ends with, given the outcome of its transport call: the error
  the transport threw, or the error of reading the text of its response; \<open>None\<close> when
  the attempt delivers the response.
\<close>

fun failure :: "error + APIResponse \<Rightarrow> error option" where
  "failure (Inl e) = Some e"
| "failure (Inr r) = (case resp_text r of Inl e \<Rightarrow> Some e | Inr t \<Rightarrow> None)"

text \<open>A transport call that was answered with a response whose text could be read.\<close>

fun delivered :: "call \<Rightarrow> bool" where
  "delivered (Fetch m u ro out) = (failure out = None)"
| "delivered (SetTimeout ms) = False"

text \<open>The delays of the waits among some calls, in order.\<close>

fun delays :: "call list \<Rightarrow> int list" where
  "delays [] = []"
| "delays (SetTimeout ms # xs) = ms # delays xs"
| "delays (Fetch m u ro r # xs) = delays xs"

text \<open>
  The calls of a run of attempts numbered from \<open>a\<close>, each followed by its wait: attempt
  \<open>k\<close> is a transport call, with its outcome, and then a wait of \<open>1000 * k\<close>
  milliseconds.
\<close>

definition failedAttempts ::
  "string \<Rightarrow> string \<Rightarrow> requestOptions \<Rightarrow> nat \<Rightarrow> (error + APIResponse) list \<Rightarrow> call list" where
  "failedAttempts meth u ro a outs =
     concat (map (\<lambda>(k, out). [Fetch meth u ro out, SetTimeout (1000 * int k)]) (enumerate a outs))"

text \<open>
  The world in which attempt \<open>a + j\<close> calls the transport, when attempt \<open>a\<close> calls it in
  the world \<open>w\<close> and each of the \<open>j\<close> attempts before it is followed by its wait.
\<close>

fun worldFrom ::
  "'w platform \<Rightarrow> 'w ApiClient \<Rightarrow> string \<Rightarrow> string \<Rightarrow> requestOptions \<Rightarrow> nat \<Rightarrow> nat \<Rightarrow> 'w \<Rightarrow> 'w" where
  "worldFrom P c meth u ro a 0 w = w"
| "worldFrom P c meth u ro a (Suc j) w =
     worldFrom P c meth u ro (Suc a) j (setTimeout P (1000 * int a) (snd (request c meth u ro w)))"

text \<open>
  An absolute URL in the words of the specification, recognised by its URL-scheme
  prefix: a letter, then letters, digits, \<open>+\<close>, \<open>-\<close> or \<open>.\<close>, then a colon. With it, the
  final URL as the specification words it.
\<close>

definition isLetter :: "char \<Rightarrow> bool" where
  "isLetter c =
     (let n = (of_char c :: nat) in (97 \<le> n \<and> n \<le> 122) \<or> (65 \<le> n \<and> n \<le> 90))"

definition schemeChar :: "char \<Rightarrow> bool" where
  "schemeChar c =
     (let n = (of_char c :: nat)
      in isLetter c \<or> (48 \<le> n \<and> n \<le> 57) \<or> c = CHR ''+'' \<or> c = CHR ''-'' \<or> c = CHR ''.'')"

definition specAbsolute :: "string \<Rightarrow> bool" where
  "specAbsolute path =
     (case path of
        [] \<Rightarrow> False
      | c # cs \<Rightarrow> isLetter c \<and> take 1 (dropWhile schemeChar cs) = '':'')"

definition specFinalUrl :: "'w ApiClient \<Rightarrow> string \<Rightarrow> string" where
  "specFinalUrl c path = (if specAbsolute path then path else baseUrl c @ path)"

text \<open>Lower-casing of ASCII letters.\<close>

definition toLowerChar :: "char \<Rightarrow> char" where
  "toLowerChar c =
     (let n = (of_char c :: nat) in if 65 \<le> n \<and> n \<le> 90 then char_of (n + 32) else c)"

definition toLowerCase :: "string \<Rightarrow> string" where
  "toLowerCase s = map toLowerChar s"

definition lowerCased :: "string \<Rightarrow> bool" where
  "lowerCased s = (toLowerCase s = s)"

text \<open>The context field each strategy tests before it builds its query, by position.\<close>

definition requiredField :: "nat \<Rightarrow> ElementContext \<Rightarrow> string option" where
  "requiredField i ctx = [role ctx, text' ctx, placeholder ctx, testId ctx, text' ctx] ! i"

text \<open>The waits of the strategies \<open>hs\<close>, each failing.\<close>

definition failedWaits :: "HealingStrategy list \<Rightarrow> ElementContext \<Rightarrow> waitCall list" where
  "failedWaits hs ctx = map (\<lambda>h. WaitFor (First (locate h ctx)) 2000 False) hs"

text \<open>The locators the loop waits for, one per strategy, in the order of the list.\<close>

definition candidates :: "HealingStrategy list \<Rightarrow> ElementContext \<Rightarrow> Locator list" where
  "candidates hs ctx = map (\<lambda>h. First (locate h ctx)) hs"

text \<open>The page after a wait of 2000 ms for each of some locators, in order.\<close>

fun pageAfter :: "'p waitFor \<Rightarrow> Locator list \<Rightarrow> 'p \<Rightarrow> 'p" where
  "pageAfter W [] p = p"
| "pageAfter W (l # ls) p = pageAfter W ls (snd (W l 2000 p))"

text \<open>
  A page as a CSS type selector sees it: the tag names of its elements. The query
  \<open>page.locator(sel)\<close> with a bare identifier \<open>sel\<close> is a type selector and matches the
  elements of that tag name, and \<open>first()\<close> keeps the first match. The count is \<open>None\<close>
  for the queries this reading does not cover.
\<close>

definition identChar :: "char \<Rightarrow> bool" where
  "identChar c =
     (let n = (of_char c :: nat)
      in (97 \<le> n \<and> n \<le> 122) \<or> (65 \<le> n \<and> n \<le> 90) \<or> (48 \<le> n \<and> n \<le> 57) \<or>
         c = CHR ''_'' \<or> c = CHR ''-'')"

definition isIdentifier :: "string \<Rightarrow> bool" where
  "isIdentifier s =
     (s \<noteq> [] \<and> list_all identChar s \<and>
      \<not> (48 \<le> (of_char (hd s) :: nat) \<and> (of_char (hd s) :: nat) \<le> 57) \<and> hd s \<noteq> CHR ''-'')"

fun matchCount :: "string list \<Rightarrow> Locator \<Rightarrow> nat option" where
  "matchCount tags (Css sel) =
     (if isIdentifier sel then Some (length (filter (\<lambda>t. t = sel) tags)) else None)"
| "matchCount tags (First l) = map_option (min 1) (matchCount tags l)"
| "matchCount tags (GetByRole r n) = None"
| "matchCount tags (GetByText t e) = None"
| "matchCount tags (GetByPlaceholder p) = None"
| "matchCount tags (GetByTestId i) = None"

section \<open>Example inputs\<close>

subsection \<open>A JSON reader for the example platform\<close>

text \<open>
  The example platform reads JSON texts whose numbers are integers and whose strings
  use the two-character escapes only; every other text counts as not JSON. The
  recursion is bounded by the length of the text.
\<close>

definition isWs :: "char \<Rightarrow> bool" where
  "isWs c = (c \<in> set [CHR '' '', CHR 0x09, CHR 0x0A, CHR 0x0D])"

fun skipWs :: "string \<Rightarrow> string" where
  "skipWs [] = []"
| "skipWs (c # cs) = (if isWs c then skipWs cs else c # cs)"

definition isDigit :: "char \<Rightarrow> bool" where
  "isDigit c = (48 \<le> (of_char c :: nat) \<and> (of_char c :: nat) \<le> 57)"

fun parseDigits :: "nat \<Rightarrow> string \<Rightarrow> nat \<times> string" where
  "parseDigits acc [] = (acc, [])"
| "parseDigits acc (c # cs) =
     (if isDigit c then parseDigits (10 * acc + (of_char c - 48)) cs else (acc, c # cs))"

definition parseNat :: "string \<Rightarrow> (nat \<times> string) option" where
  "parseNat cs =
     (case cs of
        [] \<Rightarrow> None
      | c # r \<Rightarrow>
          if c = CHR ''0'' then Some (0, r)
          else if isDigit c then Some (parseDigits 0 cs)
          else None)"

definition parseNumber :: "string \<Rightarrow> (json \<times> string) option" where
  "parseNumber cs =
     (let neg = (cs \<noteq> [] \<and> hd cs = CHR ''-'') in
      case parseNat (if neg then tl cs else cs) of
        None \<Rightarrow> None
      | Some (n, r) \<Rightarrow>
          if r \<noteq> [] \<and> hd r \<in> set [CHR ''.'', CHR ''e'', CHR ''E''] then None
          else Some (JNum (if neg then - int n else int n), r))"

definition unescape :: "char \<Rightarrow> char option" where
  "unescape c =
     (if c = CHR 0x22 then Some (CHR 0x22)
      else if c = CHR 0x5C then Some (CHR 0x5C)
      else if c = CHR ''/'' then Some (CHR ''/'')
      else if c = CHR ''b'' then Some (CHR 0x08)
      else if c = CHR ''f'' then Some (CHR 0x0C)
      else if c = CHR ''n'' then Some (CHR 0x0A)
      else if c = CHR ''r'' then Some (CHR 0x0D)
      else if c = CHR ''t'' then Some (CHR 0x09)
      else None)"

fun parseChars :: "string \<Rightarrow> (string \<times> string) option" where
  "parseChars [] = None"
| "parseChars [c] = (if c = CHR 0x22 then Some ([], []) else None)"
| "parseChars (c # d # cs) =
     (if c = CHR 0x22 then Some ([], d # cs)
      else if c = CHR 0x5C then
        (case unescape d of
           None \<Rightarrow> None
         | Some x \<Rightarrow> (case parseChars cs of None \<Rightarrow> None | Some (str, r) \<Rightarrow> Some (x # str, r)))
      else if (of_char c :: nat) < 32 then None
      else (case parseChars (d # cs) of None \<Rightarrow> None | Some (str, r) \<Rightarrow> Some (c # str, r)))"

text \<open>A key that occurs twice keeps its first position and takes its last value.\<close>

definition addMember :: "string \<Rightarrow> json \<Rightarrow> (string \<times> json) list \<Rightarrow> (string \<times> json) list" where
  "addMember k v ms =
     (k, case map_of ms k of None \<Rightarrow> v | Some v' \<Rightarrow> v') # filter (\<lambda>(k', x). k' \<noteq> k) ms"

fun parseValue :: "nat \<Rightarrow> string \<Rightarrow> (json \<times> string) option"
  and parseElements :: "nat \<Rightarrow> string \<Rightarrow> (json list \<times> string) option"
  and parseMembers :: "nat \<Rightarrow> string \<Rightarrow> ((string \<times> json) list \<times> string) option" where
  "parseValue 0 cs = None"
| "parseValue (Suc n) cs =
     (let ds = skipWs cs in
      if ds = [] then None
      else if hd ds = CHR 0x22 then
        (case parseChars (tl ds) of None \<Rightarrow> None | Some (str, r) \<Rightarrow> Some (JStr str, r))
      else if hd ds = CHR ''['' then
        (if skipWs (tl ds) \<noteq> [] \<and> hd (skipWs (tl ds)) = CHR '']''
         then Some (JArr [], tl (skipWs (tl ds)))
         else (case parseElements n (tl ds) of None \<Rightarrow> None | Some (vs, r) \<Rightarrow> Some (JArr vs, r)))
      else if hd ds = CHR ''{'' then
        (if skipWs (tl ds) \<noteq> [] \<and> hd (skipWs (tl ds)) = CHR ''}''
         then Some (JObj [], tl (skipWs (tl ds)))
         else (case parseMembers n (tl ds) of None \<Rightarrow> None | Some (ms, r) \<Rightarrow> Some (JObj ms, r)))
      else if startsWith ds ''true'' then Some (JBool True, drop 4 ds)
      else if startsWith ds ''false'' then Some (JBool False, drop 5 ds)
      else if startsWith ds ''null'' then Some (JNull, drop 4 ds)
      else parseNumber ds)"
| "parseElements 0 cs = None"
| "parseElements (Suc n) cs =
     (case parseValue n cs of
        None \<Rightarrow> None
      | Some (v, r) \<Rightarrow>
          (let r' = skipWs r in
           if r' = [] then None
           else if hd r' = CHR '']'' then Some ([v], tl r')
           else if hd r' = CHR '','' then
             (case parseElements n (tl r') of None \<Rightarrow> None | Some (vs, r'') \<Rightarrow> Some (v # vs, r''))
           else None))"
| "parseMembers 0 cs = None"
| "parseMembers (Suc n) cs =
     (let ds = skipWs cs in
      if ds = [] \<or> hd ds \<noteq> CHR 0x22 then None
      else
        (case parseChars (tl ds) of
           None \<Rightarrow> None
         | Some (k, r) \<Rightarrow>
             (let r1 = skipWs r in
              if r1 = [] \<or> hd r1 \<noteq> CHR '':'' then None
              else
                (case parseValue n (tl r1) of
                   None \<Rightarrow> None
                 | Some (v, r2) \<Rightarrow>
                     (let r3 = skipWs r2 in
                      if r3 = [] then None
                      else if hd r3 = CHR ''}'' then Some ([(k, v)], tl r3)
                      else if hd r3 = CHR '','' then
                        (case parseMembers n (tl r3) of
                           None \<Rightarrow> None
                         | Some (ms, r4) \<Rightarrow> Some (addMember k v ms, r4))
                      else None)))))"

definition jsonParse :: "string \<Rightarrow> json option" where
  "jsonParse s =
     (case parseValue (Suc (length s)) s of
        None \<Rightarrow> None
      | Some (v, r) \<Rightarrow> if skipWs r = [] then Some v else None)"

subsection \<open>Clients and transports\<close>

text \<open>
  The example world is the number of transport calls made so far; its clock moves 250
  ms with each call, and waiting does not change it.
\<close>

definition platform0 :: "nat platform" where
  "platform0 =
     \<lparr>Date_now = (\<lambda>w. 250 * int w), setTimeout = (\<lambda>ms w. w), JSON_parse = jsonParse,
      API_TIMEOUT = 15000\<rparr>"

definition response404 :: APIResponse where
  "response404 =
     \<lparr>resp_status = 404, resp_statusText = ''Not Found'',
      resp_headers = [(''content-type'', ''application/json'')], resp_text = Inr ''{}''\<rparr>"

definition response200 :: APIResponse where
  "response200 =
     \<lparr>resp_status = 200, resp_statusText = ''OK'',
      resp_headers = [(''Content-Type'', ''text/plain'')], resp_text = Inr ''not-json{''\<rparr>"

definition response201 :: APIResponse where
  "response201 =
     \<lparr>resp_status = 201, resp_statusText = ''Created'',
      resp_headers = [(''content-type'', ''application/json'')],
      resp_text = Inr ''{\"a\":1}''\<rparr>"

text \<open>A 404 response whose text cannot be read.\<close>

definition disposed404 :: APIResponse where
  "disposed404 =
     \<lparr>resp_status = 404, resp_statusText = ''Not Found'',
      resp_headers = [(''content-type'', ''application/json'')],
      resp_text = Inl (Error ''Response has been disposed'')\<rparr>"

text \<open>A transport that answers every call with that response.\<close>

definition brokenBody :: "nat APIRequestContext" where
  "brokenBody m u ro w = (Inr disposed404, Suc w)"

text \<open>A transport that answers every call with 404.\<close>

definition notFound :: "nat APIRequestContext" where
  "notFound m u ro w = (Inr response404, Suc w)"

text \<open>A transport that answers every call with a plain text under a capitalised header.\<close>

definition plainText :: "nat APIRequestContext" where
  "plainText m u ro w = (Inr response200, Suc w)"

text \<open>A transport that throws on every call, with an error that names the call.\<close>

definition alwaysFails :: "nat APIRequestContext" where
  "alwaysFails m u ro w = (Inl (Error (''ECONNREFUSED '' @ replicate (Suc w) (CHR ''I''))), Suc w)"

text \<open>A transport that throws on its first two calls and answers from the third on.\<close>

definition failsTwice :: "nat APIRequestContext" where
  "failsTwice m u ro w =
     (if w < 2 then (Inl (Error ''ECONNRESET''), Suc w) else (Inr response200, Suc w))"

definition client0 :: "nat APIRequestContext \<Rightarrow> nat ApiClient" where
  "client0 T = new_ApiClient T ''https://api.example'' []"

definition options0 :: ApiRequestOptions where
  "options0 =
     \<lparr>opt_headers = None, opt_params = None, opt_body = None, opt_timeout = None,
      opt_retries = None\<rparr>"

definition runtime0 :: "nat runtime" where
  "runtime0 = \<lparr>world = 0, calls = [], apiResponseTimes = []\<rparr>"

definition sent0 :: requestOptions where
  "sent0 =
     \<lparr>ro_headers = [(''Content-Type'', ''application/json''), (''Accept'', ''application/json'')],
      ro_timeout = 15000, ro_params = None, ro_data = None\<rparr>"

text \<open>What a GET of \<open>/missing\<close> through \<open>notFound\<close> returns, and the state it leaves.\<close>

definition data404 :: ApiResponseData where
  "data404 =
     \<lparr>status = 404, statusText = ''Not Found'', body = JObj [], rawBody = ''{}'',
      headers = [(''content-type'', ''application/json'')], responseTime = 250,
      url = ''https://api.example/missing'', method = ''GET''\<rparr>"

definition runtime404 :: "nat runtime" where
  "runtime404 =
     \<lparr>world = 1,
      calls = [Fetch ''GET'' ''https://api.example/missing'' sent0 (Inr response404)],
      apiResponseTimes = [250]\<rparr>"

subsection \<open>Pages and contexts\<close>

text \<open>A page that does not change: the locators that are visible on it.\<close>

definition staticPage :: "(Locator list) waitFor" where
  "staticPage loc tmo p = (loc \<in> set p, p)"

definition submitPage :: "Locator list" where
  "submitPage =
     [First (GetByRole ''button'' (Some ''Submit'')), First (GetByText ''Submit'' True),
      First (GetByText ''Submit'' False)]"

definition submitContext :: ElementContext where
  "submitContext =
     \<lparr>originalSelector = ''#old-submit-button'', role = Some ''button'', text' = Some ''Submit'',
      placeholder = None, testId = None\<rparr>"

definition session0 :: "Locator list session" where
  "session0 = \<lparr>page = submitPage, waits = []\<rparr>"

text \<open>A page on which only the placeholder query and the partial text query match.\<close>

definition emailPage :: "Locator list" where
  "emailPage =
     [First (GetByPlaceholder ''Email''), First (GetByText ''Email'' False)]"

definition emailContext :: ElementContext where
  "emailContext =
     \<lparr>originalSelector = ''#email'', role = Some ''textbox'', text' = Some ''Email'',
      placeholder = Some ''Email'', testId = Some ''email-input''\<rparr>"

definition emailSession :: "Locator list session" where
  "emailSession = \<lparr>page = emailPage, waits = []\<rparr>"

definition noRoleContext :: ElementContext where
  "noRoleContext =
     \<lparr>originalSelector = ''#old-submit-button'', role = None, text' = Some ''Submit'',
      placeholder = None, testId = None\<rparr>"

section \<open>The attempt loop\<close>

declare attemptLoop.simps [simp del]

lemma startsWith_prefix: "startsWith s p = prefix p s"
proof
  assume "startsWith s p"
  then have "p = take (length p) s" by (simp add: startsWith_def)
  then show "prefix p s" by (metis take_is_prefix)
next
  assume "prefix p s"
  then obtain zs where "s = p @ zs" by (auto simp: prefix_def)
  then show "startsWith s p" by (simp add: startsWith_def)
qed

lemma executeRequest_supported:
  assumes "supported meth"
  shows "executeRequest c meth u hdrs options tmo s =
    (fst (request c meth u (requestOptionsOf hdrs options tmo meth) (world s)),
     s\<lparr>world := snd (request c meth u (requestOptionsOf hdrs options tmo meth) (world s)),
       calls := calls s @ [Fetch meth u (requestOptionsOf hdrs options tmo meth)
         (fst (request c meth u (requestOptionsOf hdrs options tmo meth) (world s)))]\<rparr>)"
  using assms unfolding executeRequest_def requestOptionsOf_def supported_def Let_def
  by (simp split: prod.splits)

lemma executeRequest_unsupported:
  assumes "\<not> supported meth"
  shows "executeRequest c meth u hdrs options tmo s =
    (Inl (Error (''Unsupported HTTP method: '' @ meth)), s)"
  using assms unfolding executeRequest_def supported_def Let_def by simp

lemma parseResponse_fail:
  "resp_text r = Inl e \<Longrightarrow> parseResponse P r meth u rt = Inl e"
  by (simp add: parseResponse_def)

lemma parseResponse_ok:
  "resp_text r = Inr t \<Longrightarrow> \<exists>d. parseResponse P r meth u rt = Inr d"
  by (simp add: parseResponse_def Let_def)

lemma parseResponse_Inr_text:
  "parseResponse P r meth u rt = Inr d \<Longrightarrow> \<exists>t. resp_text r = Inr t"
  by (cases "resp_text r") (simp_all add: parseResponse_def)

lemma parseResponse_Inl_text:
  "parseResponse P r meth u rt = Inl e \<Longrightarrow> resp_text r = Inl e"
  by (cases "resp_text r") (simp_all add: parseResponse_def Let_def)

text \<open>One attempt with one of the five verbs, by the outcome of its transport call.\<close>

lemma attemptOnce_fail:
  assumes "supported meth"
    and "failure (fst (request c meth u (requestOptionsOf hdrs options tmo meth) (world s))) = Some e"
  shows "attemptOnce P c meth u hdrs options tmo s =
    (Inl e,
     s\<lparr>world := snd (request c meth u (requestOptionsOf hdrs options tmo meth) (world s)),
       calls := calls s @ [Fetch meth u (requestOptionsOf hdrs options tmo meth)
         (fst (request c meth u (requestOptionsOf hdrs options tmo meth) (world s)))]\<rparr>)"
proof (cases "fst (request c meth u (requestOptionsOf hdrs options tmo meth) (world s))")
  case (Inl e')
  with assms(2) have "e' = e" by simp
  with Inl show ?thesis
    by (simp add: attemptOnce_def Let_def executeRequest_supported [OF assms(1)])
next
  case (Inr r)
  with assms(2) have "resp_text r = Inl e" by (simp split: sum.splits)
  with Inr show ?thesis
    by (simp add: attemptOnce_def Let_def executeRequest_supported [OF assms(1)]
        parseResponse_fail)
qed

lemma attemptOnce_ok:
  assumes "supported meth"
    and "failure (fst (request c meth u (requestOptionsOf hdrs options tmo meth) (world s))) = None"
  shows "\<exists>r rt d. fst (request c meth u (requestOptionsOf hdrs options tmo meth) (world s)) = Inr r \<and>
    parseResponse P r meth u rt = Inr d \<and>
    attemptOnce P c meth u hdrs options tmo s =
    (Inr d,
     addApiResponseTime rt
      (s\<lparr>world := snd (request c meth u (requestOptionsOf hdrs options tmo meth) (world s)),
        calls := calls s @ [Fetch meth u (requestOptionsOf hdrs options tmo meth)
          (fst (request c meth u (requestOptionsOf hdrs options tmo meth) (world s)))]\<rparr>))"
proof (cases "fst (request c meth u (requestOptionsOf hdrs options tmo meth) (world s))")
  case (Inl e')
  with assms(2) show ?thesis by simp
next
  case (Inr r)
  let ?rt = "Date_now P (snd (request c meth u (requestOptionsOf hdrs options tmo meth) (world s))) -
             Date_now P (world s)"
  from Inr assms(2) obtain t where "resp_text r = Inr t" by (auto split: sum.splits)
  from parseResponse_ok [OF this] obtain d where d: "parseResponse P r meth u ?rt = Inr d"
    by blast
  have "attemptOnce P c meth u hdrs options tmo s =
    (Inr d,
     addApiResponseTime ?rt
      (s\<lparr>world := snd (request c meth u (requestOptionsOf hdrs options tmo meth) (world s)),
        calls := calls s @ [Fetch meth u (requestOptionsOf hdrs options tmo meth)
          (fst (request c meth u (requestOptionsOf hdrs options tmo meth) (world s)))]\<rparr>))"
    using Inr d by (simp add: attemptOnce_def Let_def executeRequest_supported [OF assms(1)])
  with Inr d show ?thesis by blast
qed

text \<open>One attempt with any verb: the call it makes, if any, and how it ends.\<close>

lemma attemptOnce_calls:
  assumes "attemptOnce P c meth u hdrs options tmo s = (r1, s1)"
  shows "(calls s1 = calls s \<and> isl r1) \<or>
     (\<exists>out. calls s1 = calls s @ [Fetch meth u (requestOptionsOf hdrs options tmo meth) out] \<and>
        ((isl r1 \<and> failure out \<noteq> None) \<or>
         (\<exists>r rt d. out = Inr r \<and> parseResponse P r meth u rt = Inr d \<and> r1 = Inr d)))"
proof (cases "supported meth")
  case False
  with assms show ?thesis
    by (auto simp: attemptOnce_def Let_def executeRequest_unsupported)
next
  case True
  let ?out = "fst (request c meth u (requestOptionsOf hdrs options tmo meth) (world s))"
  show ?thesis
  proof (cases "failure ?out")
    case (Some e)
    from attemptOnce_fail [OF True Some, of P] assms Some show ?thesis by auto
  next
    case None
    from attemptOnce_ok [OF True None, of P] assms show ?thesis
      by (auto simp: addApiResponseTime_def)
  qed
qed

lemma attemptLoop_done:
  "\<not> a \<le> n \<Longrightarrow> attemptLoop P c meth u hdrs options tmo n a le s = (Inl le, s)"
  by (subst attemptLoop.simps) simp

lemma attemptLoop_ok:
  "a \<le> n \<Longrightarrow> attemptOnce P c meth u hdrs options tmo s = (Inr d, s1) \<Longrightarrow>
   attemptLoop P c meth u hdrs options tmo n a le s = (Inr d, s1)"
  by (subst attemptLoop.simps) simp

lemma attemptLoop_fail:
  "a \<le> n \<Longrightarrow> attemptOnce P c meth u hdrs options tmo s = (Inl e, s1) \<Longrightarrow>
   attemptLoop P c meth u hdrs options tmo n a le s =
     attemptLoop P c meth u hdrs options tmo n (a + 1) (Some e)
       (if a < n then wait P (1000 * a) s1 else s1)"
  by (subst attemptLoop.simps) simp

text \<open>
  Whatever the verb: the calls of the loop are waits and transport calls of attempts
  that failed, followed, when the loop returns a value, by the one transport call whose
  response was delivered.
\<close>

lemma attemptLoop_trace:
  "attemptLoop P c meth u hdrs options tmo n a le s = (res, s') \<Longrightarrow>
   \<exists>pre. (\<forall>x\<in>set pre. (\<exists>ms. x = SetTimeout ms) \<or>
             (\<exists>out. x = Fetch meth u (requestOptionsOf hdrs options tmo meth) out \<and>
                    failure out \<noteq> None)) \<and>
     ((\<exists>r rt d. calls s' = calls s @ pre @
                   [Fetch meth u (requestOptionsOf hdrs options tmo meth) (Inr r)] \<and>
              parseResponse P r meth u rt = Inr d \<and> res = Inr d) \<or>
      (calls s' = calls s @ pre \<and> isl res))"
proof (induction P c meth u hdrs options tmo n a le s arbitrary: res s' rule: attemptLoop.induct)
  case (1 P c meth u hdrs options tmo n a le s)
  let ?ro = "requestOptionsOf hdrs options tmo meth"
  let ?quiet = "\<lambda>x. (\<exists>ms. x = SetTimeout ms) \<or> (\<exists>out. x = Fetch meth u ?ro out \<and> failure out \<noteq> None)"
  show ?case
  proof (cases "a \<le> n")
    case False
    with "1.prems" have "res = Inl le" "s' = s" by (simp_all add: attemptLoop_done)
    then show ?thesis by (intro exI [of _ "[]"]) simp
  next
    case True
    obtain r1 s1 where once: "attemptOnce P c meth u hdrs options tmo s = (r1, s1)"
      by (cases "attemptOnce P c meth u hdrs options tmo s")
    show ?thesis
    proof (cases r1)
      case (Inr d)
      with once True "1.prems" have res: "res = Inr d" and s': "s' = s1"
        by (simp_all add: attemptLoop_ok)
      from attemptOnce_calls [OF once] Inr
      obtain r rt where "calls s1 = calls s @ [] @ [Fetch meth u ?ro (Inr r)]"
        and "parseResponse P r meth u rt = Inr d"
        by auto
      with res s' show ?thesis by (intro exI [of _ "[]"]) auto
    next
      case (Inl e)
      define s2 where "s2 = (if a < n then wait P (1000 * a) s1 else s1)"
      from once True Inl "1.prems"
      have loop: "attemptLoop P c meth u hdrs options tmo n (a + 1) (Some e) s2 = (res, s')"
        by (simp add: attemptLoop_fail s2_def)
      from "1.IH" [OF True once [symmetric] Inl, folded s2_def, OF loop]
      obtain pre where pre: "\<forall>x\<in>set pre. ?quiet x"
        and alt: "(\<exists>r rt d. calls s' = calls s2 @ pre @ [Fetch meth u ?ro (Inr r)] \<and>
              parseResponse P r meth u rt = Inr d \<and> res = Inr d) \<or>
          (calls s' = calls s2 @ pre \<and> isl res)"
        by blast
      from attemptOnce_calls [OF once] Inl
      have "\<exists>m1. calls s1 = calls s @ m1 \<and> (\<forall>x\<in>set m1. ?quiet x)"
      proof (elim disjE conjE exE)
        assume "calls s1 = calls s"
        then show ?thesis by (intro exI [of _ "[]"]) simp
      next
        fix out
        assume "calls s1 = calls s @ [Fetch meth u ?ro out]" and "failure out \<noteq> None"
        then show ?thesis by (intro exI [of _ "[Fetch meth u ?ro out]"]) simp
      next
        fix out r rt d
        assume "r1 = Inr d"
        with Inl show ?thesis by simp
      qed
      then obtain m1 where m1: "calls s1 = calls s @ m1" and m1p: "\<forall>x\<in>set m1. ?quiet x"
        by blast
      define mid where "mid = m1 @ (if a < n then [SetTimeout (1000 * a)] else [])"
      have mid: "calls s2 = calls s @ mid"
        using m1 by (simp add: mid_def s2_def wait_def)
      have midp: "\<forall>x\<in>set mid. ?quiet x"
        using m1p by (auto simp: mid_def)
      from pre midp have "\<forall>x\<in>set (mid @ pre). ?quiet x" by auto
      moreover from alt mid
      have "(\<exists>r rt d. calls s' = calls s @ (mid @ pre) @ [Fetch meth u ?ro (Inr r)] \<and>
              parseResponse P r meth u rt = Inr d \<and> res = Inr d) \<or>
          (calls s' = calls s @ (mid @ pre) \<and> isl res)" by auto
      ultimately show ?thesis by blast
    qed
  qed
qed

lemma failedAttempts_Nil [simp]: "failedAttempts meth u ro a [] = []"
  by (simp add: failedAttempts_def)

lemma failedAttempts_Cons [simp]:
  "failedAttempts meth u ro a (out # outs) =
     Fetch meth u ro out # SetTimeout (1000 * int a) # failedAttempts meth u ro (Suc a) outs"
  by (simp add: failedAttempts_def)

lemma shapeI:
  assumes "calls s' = calls s @ failedAttempts meth u ro a outs @ [Fetch meth u ro out]"
    and "int a + int (length outs) \<le> n"
    and "\<forall>i<length outs. outs ! i = fst (request c meth u ro (worldFrom P c meth u ro a i (world s))) \<and>
           failure (outs ! i) \<noteq> None"
    and "out = fst (request c meth u ro (worldFrom P c meth u ro a (length outs) (world s)))"
    and "world s' = snd (request c meth u ro (worldFrom P c meth u ro a (length outs) (world s)))"
    and "(case failure out of
           None \<Rightarrow> \<exists>r rt d. out = Inr r \<and> parseResponse P r meth u rt = Inr d \<and> res = Inr d
         | Some e \<Rightarrow> res = Inl (Some e) \<and> int a + int (length outs) = n)"
  shows "\<exists>outs out. calls s' = calls s @ failedAttempts meth u ro a outs @ [Fetch meth u ro out] \<and>
      int a + int (length outs) \<le> n \<and>
      (\<forall>i<length outs. outs ! i = fst (request c meth u ro (worldFrom P c meth u ro a i (world s))) \<and>
           failure (outs ! i) \<noteq> None) \<and>
      out = fst (request c meth u ro (worldFrom P c meth u ro a (length outs) (world s))) \<and>
      world s' = snd (request c meth u ro (worldFrom P c meth u ro a (length outs) (world s))) \<and>
      (case failure out of
         None \<Rightarrow> \<exists>r rt d. out = Inr r \<and> parseResponse P r meth u rt = Inr d \<and> res = Inr d
       | Some e \<Rightarrow> res = Inl (Some e) \<and> int a + int (length outs) = n)"
  using assms by blast

text \<open>
  For one of the five verbs and a loop that still has an attempt: the calls are a run
  of failed attempts, each with its wait, and then one last transport call. Each call
  is made in the world the calls and waits before it have left, and the loop goes on
  for as long as the attempts fail and the budget lasts.
\<close>

lemma attemptLoop_shape:
  assumes "supported meth"
  shows "int a \<le> n \<Longrightarrow>
    attemptLoop P c meth u hdrs options tmo n (int a) le s = (res, s') \<Longrightarrow>
    \<exists>outs out. calls s' = calls s @
          failedAttempts meth u (requestOptionsOf hdrs options tmo meth) a outs @
          [Fetch meth u (requestOptionsOf hdrs options tmo meth) out] \<and>
      int a + int (length outs) \<le> n \<and>
      (\<forall>i<length outs.
         outs ! i = fst (request c meth u (requestOptionsOf hdrs options tmo meth)
           (worldFrom P c meth u (requestOptionsOf hdrs options tmo meth) a i (world s))) \<and>
         failure (outs ! i) \<noteq> None) \<and>
      out = fst (request c meth u (requestOptionsOf hdrs options tmo meth)
        (worldFrom P c meth u (requestOptionsOf hdrs options tmo meth) a (length outs) (world s))) \<and>
      world s' = snd (request c meth u (requestOptionsOf hdrs options tmo meth)
        (worldFrom P c meth u (requestOptionsOf hdrs options tmo meth) a (length outs) (world s))) \<and>
      (case failure out of
         None \<Rightarrow> \<exists>r rt d. out = Inr r \<and> parseResponse P r meth u rt = Inr d \<and> res = Inr d
       | Some e \<Rightarrow> res = Inl (Some e) \<and> int a + int (length outs) = n)"
proof (induction "nat (n - int a)" arbitrary: a le s)
  case 0
  let ?ro = "requestOptionsOf hdrs options tmo meth"
  let ?out = "fst (request c meth u ?ro (world s))"
  let ?s1 = "s\<lparr>world := snd (request c meth u ?ro (world s)),
                calls := calls s @ [Fetch meth u ?ro ?out]\<rparr>"
  from 0 have an: "int a = n" by simp
  show ?case
  proof (cases "failure ?out")
    case None
    from attemptOnce_ok [OF assms None, of P]
    obtain r rt d where out: "?out = Inr r" and d: "parseResponse P r meth u rt = Inr d"
      and once: "attemptOnce P c meth u hdrs options tmo s = (Inr d, addApiResponseTime rt ?s1)"
      by blast
    from attemptLoop_ok [OF "0.prems"(1) once, of le] "0.prems"(2)
    have res: "res = Inr d" and s': "s' = addApiResponseTime rt ?s1" by simp_all
    show ?thesis
    proof (rule shapeI [where outs = "[]" and out = ?out])
      show "calls s' = calls s @ failedAttempts meth u ?ro a [] @ [Fetch meth u ?ro ?out]"
        using s' by (simp add: addApiResponseTime_def)
      show "world s' = snd (request c meth u ?ro (worldFrom P c meth u ?ro a (length []) (world s)))"
        using s' by (simp add: addApiResponseTime_def)
      show "case failure ?out of
           None \<Rightarrow> \<exists>r rt d. ?out = Inr r \<and> parseResponse P r meth u rt = Inr d \<and> res = Inr d
         | Some e \<Rightarrow> res = Inl (Some e) \<and> int a + int (length []) = n"
        using None out d res by auto
    qed (use "0.prems" in simp_all)
  next
    case (Some e)
    from attemptOnce_fail [OF assms Some, of P]
    have once: "attemptOnce P c meth u hdrs options tmo s = (Inl e, ?s1)" .
    have "attemptLoop P c meth u hdrs options tmo n (int a) le s =
        attemptLoop P c meth u hdrs options tmo n (int a + 1) (Some e) ?s1"
      using attemptLoop_fail [OF "0.prems"(1) once, of le] an by simp
    moreover have "attemptLoop P c meth u hdrs options tmo n (int a + 1) (Some e) ?s1 =
        (Inl (Some e), ?s1)"
      by (rule attemptLoop_done) (simp add: an)
    ultimately have "(res, s') = (Inl (Some e), ?s1)"
      using "0.prems"(2) by simp
    then have res: "res = Inl (Some e)" and s': "s' = ?s1" by simp_all
    show ?thesis
    proof (rule shapeI [where outs = "[]" and out = ?out])
      show "calls s' = calls s @ failedAttempts meth u ?ro a [] @ [Fetch meth u ?ro ?out]"
        using s' by simp
      show "world s' = snd (request c meth u ?ro (worldFrom P c meth u ?ro a (length []) (world s)))"
        using s' by simp
      show "case failure ?out of
           None \<Rightarrow> \<exists>r rt d. ?out = Inr r \<and> parseResponse P r meth u rt = Inr d \<and> res = Inr d
         | Some e \<Rightarrow> res = Inl (Some e) \<and> int a + int (length []) = n"
        using Some res an by simp
    qed (use "0.prems" in simp_all)
  qed
next
  case (Suc k)
  let ?ro = "requestOptionsOf hdrs options tmo meth"
  let ?out = "fst (request c meth u ?ro (world s))"
  let ?s1 = "s\<lparr>world := snd (request c meth u ?ro (world s)),
                calls := calls s @ [Fetch meth u ?ro ?out]\<rparr>"
  from Suc have an: "int a < n" by linarith
  show ?case
  proof (cases "failure ?out")
    case None
    from attemptOnce_ok [OF assms None, of P]
    obtain r rt d where out: "?out = Inr r" and d: "parseResponse P r meth u rt = Inr d"
      and once: "attemptOnce P c meth u hdrs options tmo s = (Inr d, addApiResponseTime rt ?s1)"
      by blast
    from attemptLoop_ok [OF Suc.prems(1) once, of le] Suc.prems(2)
    have res: "res = Inr d" and s': "s' = addApiResponseTime rt ?s1" by simp_all
    show ?thesis
    proof (rule shapeI [where outs = "[]" and out = ?out])
      show "calls s' = calls s @ failedAttempts meth u ?ro a [] @ [Fetch meth u ?ro ?out]"
        using s' by (simp add: addApiResponseTime_def)
      show "world s' = snd (request c meth u ?ro (worldFrom P c meth u ?ro a (length []) (world s)))"
        using s' by (simp add: addApiResponseTime_def)
      show "case failure ?out of
           None \<Rightarrow> \<exists>r rt d. ?out = Inr r \<and> parseResponse P r meth u rt = Inr d \<and> res = Inr d
         | Some e \<Rightarrow> res = Inl (Some e) \<and> int a + int (length []) = n"
        using None out d res by auto
    qed (use Suc.prems in simp_all)
  next
    case (Some e)
    from attemptOnce_fail [OF assms Some, of P]
    have once: "attemptOnce P c meth u hdrs options tmo s = (Inl e, ?s1)" .
    define s2 where "s2 = wait P (1000 * int a) ?s1"
    from attemptLoop_fail [OF Suc.prems(1) once, of le] Suc.prems(2) an
    have loop: "attemptLoop P c meth u hdrs options tmo n (int (Suc a)) (Some e) s2 = (res, s')"
      by (simp add: s2_def add.commute)
    have k: "k = nat (n - int (Suc a))" using Suc.hyps(2) by linarith
    have le: "int (Suc a) \<le> n" using an by linarith
    have w2: "world s2 = setTimeout P (1000 * int a) (snd (request c meth u ?ro (world s)))"
      by (simp add: s2_def wait_def)
    have s2c: "calls s2 = calls s @ [Fetch meth u ?ro ?out, SetTimeout (1000 * int a)]"
      by (simp add: s2_def wait_def)
    from Suc.hyps(1) [OF k le loop]
    obtain outs out where
      c: "calls s' = calls s2 @ failedAttempts meth u ?ro (Suc a) outs @ [Fetch meth u ?ro out]"
      and l: "int (Suc a) + int (length outs) \<le> n"
      and f: "\<forall>i<length outs.
         outs ! i = fst (request c meth u ?ro (worldFrom P c meth u ?ro (Suc a) i (world s2))) \<and>
         failure (outs ! i) \<noteq> None"
      and o: "out = fst (request c meth u ?ro
                (worldFrom P c meth u ?ro (Suc a) (length outs) (world s2)))"
      and w: "world s' = snd (request c meth u ?ro
                (worldFrom P c meth u ?ro (Suc a) (length outs) (world s2)))"
      and r: "(case failure out of
         None \<Rightarrow> \<exists>r rt d. out = Inr r \<and> parseResponse P r meth u rt = Inr d \<and> res = Inr d
       | Some e \<Rightarrow> res = Inl (Some e) \<and> int (Suc a) + int (length outs) = n)"
      by (elim exE conjE) (rule that, assumption+)
    show ?thesis
    proof (rule shapeI [where outs = "?out # outs" and out = out])
      show "calls s' = calls s @ failedAttempts meth u ?ro a (?out # outs) @ [Fetch meth u ?ro out]"
        using c s2c by simp
      show "int a + int (length (?out # outs)) \<le> n" using l by simp
      show "\<forall>i<length (?out # outs).
         (?out # outs) ! i = fst (request c meth u ?ro (worldFrom P c meth u ?ro a i (world s))) \<and>
         failure ((?out # outs) ! i) \<noteq> None"
      proof (intro allI impI)
        fix i assume i: "i < length (?out # outs)"
        show "(?out # outs) ! i = fst (request c meth u ?ro (worldFrom P c meth u ?ro a i (world s))) \<and>
         failure ((?out # outs) ! i) \<noteq> None"
        proof (cases i)
          case 0
          with Some show ?thesis by simp
        next
          case (Suc j)
          with i have j: "j < length outs" by simp
          from f j
          have "outs ! j = fst (request c meth u ?ro (worldFrom P c meth u ?ro (Suc a) j (world s2))) \<and>
            failure (outs ! j) \<noteq> None"
            by blast
          with Suc show ?thesis by (auto simp: w2)
        qed
      qed
      show "out = fst (request c meth u ?ro
          (worldFrom P c meth u ?ro a (length (?out # outs)) (world s)))"
        using o by (simp add: w2)
      show "world s' = snd (request c meth u ?ro
          (worldFrom P c meth u ?ro a (length (?out # outs)) (world s)))"
        using w by (simp add: w2)
      show "case failure out of
           None \<Rightarrow> \<exists>r rt d. out = Inr r \<and> parseResponse P r meth u rt = Inr d \<and> res = Inr d
         | Some e \<Rightarrow> res = Inl (Some e) \<and> int a + int (length (?out # outs)) = n"
        using r by (auto split: option.splits)
    qed
  qed
qed

lemma delays_failedAttempts:
  "delays (failedAttempts meth u ro a outs @ [Fetch meth u ro out]) =
     map (\<lambda>k. 1000 * int k) [a..<a + length outs]"
proof (induction outs arbitrary: a)
  case Nil
  then show ?case by simp
next
  case (Cons e es)
  have "[a..<a + length (e # es)] = a # [Suc a..<Suc a + length es]"
    by (simp add: upt_rec)
  with Cons show ?case by simp
qed

lemma fetches_failedAttempts:
  "length (filter isFetch (failedAttempts meth u ro a outs @ [Fetch meth u ro out])) =
     Suc (length outs)"
  by (induction outs arbitrary: a) simp_all

lemma sorted_backoff: "sorted (map (\<lambda>k. 1000 * int k) [a..<b])"
  by (simp add: sorted_map)

lemma makeRequest_loop:
  "makeRequest P c meth path options s =
     attemptLoop P c meth (finalUrl c path)
       (spread (defaultHeaders c) (case opt_headers options of None \<Rightarrow> [] | Some h \<Rightarrow> h))
       options
       (case opt_timeout options of
          None \<Rightarrow> API_TIMEOUT P
        | Some t \<Rightarrow> if t \<noteq> 0 then t else API_TIMEOUT P)
       (retryBudget options) 1 None s"
  by (simp add: makeRequest_def Let_def finalUrl_def retryBudget_def startsWith_prefix)

text \<open>The two lemmas on the loop, for \<open>makeRequest\<close>.\<close>

lemma makeRequest_trace:
  assumes "makeRequest P c meth path options s = (res, s')"
  shows "\<exists>pre. (\<forall>x\<in>set pre. (\<exists>ms. x = SetTimeout ms) \<or>
             (\<exists>out. x = Fetch meth (finalUrl c path) (sentOptions P c meth options) out \<and>
                    failure out \<noteq> None)) \<and>
     ((\<exists>r rt d. calls s' = calls s @ pre @
                 [Fetch meth (finalUrl c path) (sentOptions P c meth options) (Inr r)] \<and>
              parseResponse P r meth (finalUrl c path) rt = Inr d \<and> res = Inr d) \<or>
      (calls s' = calls s @ pre \<and> isl res))"
  using attemptLoop_trace [OF assms [unfolded makeRequest_loop]]
  unfolding sentOptions_def .

lemma makeRequest_shape:
  assumes "supported meth" and "1 \<le> retryBudget options"
    and "makeRequest P c meth path options s = (res, s')"
  shows "\<exists>outs out. calls s' = calls s @
        failedAttempts meth (finalUrl c path) (sentOptions P c meth options) 1 outs @
        [Fetch meth (finalUrl c path) (sentOptions P c meth options) out] \<and>
      1 + int (length outs) \<le> retryBudget options \<and>
      (\<forall>i<length outs.
         outs ! i = fst (request c meth (finalUrl c path) (sentOptions P c meth options)
           (worldFrom P c meth (finalUrl c path) (sentOptions P c meth options) 1 i (world s))) \<and>
         failure (outs ! i) \<noteq> None) \<and>
      out = fst (request c meth (finalUrl c path) (sentOptions P c meth options)
        (worldFrom P c meth (finalUrl c path) (sentOptions P c meth options) 1 (length outs)
          (world s))) \<and>
      world s' = snd (request c meth (finalUrl c path) (sentOptions P c meth options)
        (worldFrom P c meth (finalUrl c path) (sentOptions P c meth options) 1 (length outs)
          (world s))) \<and>
      (case failure out of
         None \<Rightarrow> \<exists>r rt d. out = Inr r \<and> parseResponse P r meth (finalUrl c path) rt = Inr d \<and>
                   res = Inr d
       | Some e \<Rightarrow> res = Inl (Some e) \<and> 1 + int (length outs) = retryBudget options)"
proof -
  have one: "int 1 \<le> retryBudget options" using assms(2) by simp
  from assms(3) have "attemptLoop P c meth (finalUrl c path)
       (spread (defaultHeaders c) (case opt_headers options of None \<Rightarrow> [] | Some h \<Rightarrow> h))
       options
       (case opt_timeout options of
          None \<Rightarrow> API_TIMEOUT P
        | Some t \<Rightarrow> if t \<noteq> 0 then t else API_TIMEOUT P)
       (retryBudget options) (int 1) None s = (res, s')"
    by (simp add: makeRequest_loop)
  from attemptLoop_shape [OF assms(1) one this, unfolded of_nat_1] show ?thesis
    unfolding sentOptions_def .
qed

section \<open>The model on examples\<close>

lemma truthy_examples:
  "\<not> truthy JNull \<and> \<not> truthy (JBool False) \<and> \<not> truthy (JNum 0) \<and> \<not> truthy (JStr '''') \<and>
   truthy (JBool True) \<and> truthy (JNum 7) \<and> truthy (JStr ''a'') \<and> truthy (JArr []) \<and>
   truthy (JObj [])"
  by simp

lemma spread_example:
  "spread [(''Content-Type'', ''application/json''), (''Accept'', ''application/json'')]
     [(''Accept'', ''text/plain''), (''Authorization'', ''Bearer t'')] =
   [(''Content-Type'', ''application/json''), (''Accept'', ''text/plain''),
    (''Authorization'', ''Bearer t'')]"
  by code_simp

lemma assign_example:
  "assign (assign (assign [] ''a'' ''1'') ''__proto__'' ''x'') ''a'' ''2'' = [(''a'', ''2'')]"
  by code_simp

text \<open>A body goes out with POST, PUT and PATCH only, and only when it is truthy.\<close>

lemma body_sent_example:
  "ro_data (requestOptionsOf [] (options0\<lparr>opt_body := Some (JObj [])\<rparr>) 15000 ''POST'') =
     Some (JObj []) \<and>
   ro_data (requestOptionsOf [] (options0\<lparr>opt_body := Some (JObj [])\<rparr>) 15000 ''GET'') = None \<and>
   ro_data (requestOptionsOf [] (options0\<lparr>opt_body := Some (JNum 0)\<rparr>) 15000 ''PUT'') = None \<and>
   calls (snd (post platform0 (client0 notFound) ''/posts''
            (options0\<lparr>opt_body := Some (JObj [(''userId'', JNum 1)]), opt_timeout := Some 0\<rparr>)
            runtime0)) =
     [Fetch ''POST'' ''https://api.example/posts''
        (sent0\<lparr>ro_data := Some (JObj [(''userId'', JNum 1)])\<rparr>) (Inr response404)] \<and>
   calls (snd (delete platform0 (client0 notFound) ''/posts/1''
            (options0\<lparr>opt_body := Some (JObj [(''userId'', JNum 1)]), opt_timeout := Some 500\<rparr>)
            runtime0)) =
     [Fetch ''DELETE'' ''https://api.example/posts/1'' (sent0\<lparr>ro_timeout := 500\<rparr>)
        (Inr response404)]"
  by code_simp

text \<open>A verb outside the five never reaches the transport.\<close>

lemma unsupported_verb_example:
  "makeRequest platform0 (client0 notFound) ''HEAD'' ''/x'' options0 runtime0 =
     (Inl (Some (Error ''Unsupported HTTP method: HEAD'')), runtime0)"
  by code_simp

text \<open>Without \<open>retries\<close> the budget is one attempt.\<close>

lemma default_budget_example:
  "makeRequest platform0 (client0 alwaysFails) ''GET'' ''/x'' options0 runtime0 =
     (Inl (Some (Error ''ECONNREFUSED I'')),
      \<lparr>world = 1,
       calls = [Fetch ''GET'' ''https://api.example/x'' sent0 (Inl (Error ''ECONNREFUSED I''))],
       apiResponseTimes = []\<rparr>)"
  by code_simp

lemma resilientLocator_example:
  "resilientLocator staticPage ''#old-submit-button'' (submitContext\<lparr>originalSelector := ''''\<rparr>)
     session0 =
     (Inr (First (GetByRole ''button'' (Some ''Submit''))),
      \<lparr>page = submitPage,
       waits = [WaitFor (Css ''#old-submit-button'') 5000 False,
                WaitFor (First (GetByRole ''button'' (Some ''Submit''))) 2000 True]\<rparr>) \<and>
   autoHealLocator staticPage (First (GetByText ''Submit'' True)) submitContext DEFAULT_CONFIG
     session0 =
     (Inr (First (GetByText ''Submit'' True)),
      \<lparr>page = submitPage, waits = [WaitFor (First (GetByText ''Submit'' True)) 5000 True]\<rparr>) \<and>
   autoHealLocator staticPage (Css ''#gone'') (noRoleContext\<lparr>text' := None\<rparr>) DEFAULT_CONFIG
     session0 =
     (Inl (Error ''Auto-heal exhausted all strategies for: \"#old-submit-button\". Element not found on the page.''),
      \<lparr>page = submitPage,
       waits = [WaitFor (Css ''#gone'') 5000 False,
                WaitFor (First (Css ''__nonexistent__'')) 2000 False,
                WaitFor (First (Css ''__nonexistent__'')) 2000 False,
                WaitFor (First (Css ''__nonexistent__'')) 2000 False,
                WaitFor (First (Css ''__nonexistent__'')) 2000 False,
                WaitFor (First (Css ''__nonexistent__'')) 2000 False]\<rparr>)"
  by code_simp

section \<open>The HTTP request client: properties\<close>

text \<open>
  C1, as stated: whenever the transport answers a request with an HTTP response, the
  client returns the normalized response, without throwing and without a further
  attempt. It fails: the transport \<open>brokenBody\<close> answers with status 404, but the text
  of its response cannot be read; \<open>parseResponse\<close> throws inside the \<open>try\<close> block, the
  client waits, calls the transport again and in the end throws.
\<close>

theorem response_is_returned_counterexample:
  "resp_status disposed404 = 404 \<and>
   makeRequest platform0 (client0 brokenBody) ''GET'' ''/missing''
       (options0\<lparr>opt_retries := Some 2\<rparr>) runtime0 =
     (Inl (Some (Error ''Response has been disposed'')),
      \<lparr>world = 2,
       calls = [Fetch ''GET'' ''https://api.example/missing'' sent0 (Inr disposed404),
                SetTimeout 1000,
                Fetch ''GET'' ''https://api.example/missing'' sent0 (Inr disposed404)],
       apiResponseTimes = []\<rparr>)"
  by code_simp

text \<open>
  C1, amended. Whenever the transport answers a call of a request with an HTTP
  response, of whatever status, whose text can be read, that call is the last call of
  the request, and no call before it delivered a response: the client returns the
  normalized response, which carries the status of the transport's response; it does
  not throw and makes no further attempt.
\<close>

theorem readable_response_is_returned:
  assumes run: "makeRequest P c meth path options s = (res, s')"
    and new: "calls s' = calls s @ new"
    and ans: "Fetch m u ro (Inr r) \<in> set new"
    and body_read: "resp_text r = Inr t"
  shows "\<exists>pre rt d. new = pre @ [Fetch m u ro (Inr r)] \<and> (\<forall>x\<in>set pre. \<not> delivered x) \<and>
           parseResponse P r m u rt = Inr d \<and> res = Inr d \<and> status d = resp_status r"
proof -
  let ?u = "finalUrl c path" and ?ro = "sentOptions P c meth options"
  from makeRequest_trace [OF run] obtain pre where
    pre: "\<forall>x\<in>set pre. (\<exists>ms. x = SetTimeout ms) \<or>
            (\<exists>out. x = Fetch meth ?u ?ro out \<and> failure out \<noteq> None)"
    and alt: "(\<exists>r rt d. calls s' = calls s @ pre @ [Fetch meth ?u ?ro (Inr r)] \<and>
              parseResponse P r meth ?u rt = Inr d \<and> res = Inr d) \<or>
      (calls s' = calls s @ pre \<and> isl res)"
    by blast
  have quiet: "\<forall>x\<in>set pre. \<not> delivered x" using pre by auto
  have "delivered (Fetch m u ro (Inr r))" using body_read by simp
  with quiet have notin: "Fetch m u ro (Inr r) \<notin> set pre" by blast
  from alt show ?thesis
  proof
    assume "\<exists>r rt d. calls s' = calls s @ pre @ [Fetch meth ?u ?ro (Inr r)] \<and>
              parseResponse P r meth ?u rt = Inr d \<and> res = Inr d"
    then obtain r0 rt d where c: "calls s' = calls s @ pre @ [Fetch meth ?u ?ro (Inr r0)]"
      and d: "parseResponse P r0 meth ?u rt = Inr d" and res: "res = Inr d"
      by blast
    from c new have n: "new = pre @ [Fetch meth ?u ?ro (Inr r0)]" by simp
    with ans notin have eq: "Fetch m u ro (Inr r) = Fetch meth ?u ?ro (Inr r0)" by simp
    then have same: "m = meth" "u = ?u" "r = r0" by simp_all
    from d body_read same have "status d = resp_status r"
      by (auto simp: parseResponse_def Let_def)
    with n eq res quiet d same show ?thesis
      by (intro exI [of _ pre] exI [of _ rt] exI [of _ d]) simp
  next
    assume "calls s' = calls s @ pre \<and> isl res"
    with new have "new = pre" by simp
    with ans notin show ?thesis by simp
  qed
qed

theorem readable_response_is_returned_witness:
  "makeRequest platform0 (client0 notFound) ''GET'' ''/missing'' options0 runtime0 =
     (Inr data404, runtime404) \<and>
   calls runtime404 =
     calls runtime0 @ [Fetch ''GET'' ''https://api.example/missing'' sent0 (Inr response404)] \<and>
   resp_text response404 = Inr ''{}'' \<and>
   resp_status response404 = 404 \<and>
   status data404 = 404"
proof -
  let ?f = "Fetch ''GET'' ''https://api.example/missing'' sent0 (Inr response404)"
  have run: "makeRequest platform0 (client0 notFound) ''GET'' ''/missing'' options0 runtime0 =
      (Inr data404, runtime404)"
    by code_simp
  have new: "calls runtime404 = calls runtime0 @ [?f]"
    by (simp add: runtime404_def runtime0_def)
  have ans: "?f \<in> set [?f]" by simp
  have body_read: "resp_text response404 = Inr ''{}''" by (simp add: response404_def)
  have st: "resp_status response404 = 404" by (simp add: response404_def)
  from readable_response_is_returned [OF run new ans body_read]
  obtain d where "(Inr data404 :: error option + ApiResponseData) = Inr d"
    and "status d = resp_status response404"
    by (elim exE conjE) (rule that, assumption+)
  then have "status data404 = 404" using st by simp
  with run new body_read st show ?thesis by (intro conjI)
qed

text \<open>
  C2. With a retry budget \<open>n \<ge> 1\<close> and a transport that throws on every call, a
  request makes exactly \<open>n\<close> transport calls and then throws the error of the last one.
\<close>

theorem retries_exhausted:
  assumes verb: "supported meth"
    and budget: "opt_retries options = Some n" "1 \<le> n"
    and fails: "\<forall>m u ro w. isl (fst (request c m u ro w))"
    and run: "makeRequest P c meth path options s = (res, s')"
  shows "\<exists>new e. calls s' = calls s @ new \<and> length (filter isFetch new) = nat n \<and>
           last new = Fetch meth (finalUrl c path) (sentOptions P c meth options) (Inl e) \<and>
           res = Inl (Some e)"
proof -
  let ?u = "finalUrl c path" and ?ro = "sentOptions P c meth options"
  have rb: "retryBudget options = n" using budget by (simp add: retryBudget_def)
  have b: "1 \<le> retryBudget options" using budget rb by simp
  from makeRequest_shape [OF verb b run]
  obtain outs out where
    c: "calls s' = calls s @ failedAttempts meth ?u ?ro 1 outs @ [Fetch meth ?u ?ro out]"
    and w: "out = fst (request c meth ?u ?ro (worldFrom P c meth ?u ?ro 1 (length outs) (world s)))"
    and r: "(case failure out of
         None \<Rightarrow> \<exists>r rt d. out = Inr r \<and> parseResponse P r meth ?u rt = Inr d \<and> res = Inr d
       | Some e \<Rightarrow> res = Inl (Some e) \<and> 1 + int (length outs) = retryBudget options)"
    by (elim exE conjE) (rule that, assumption+)
  from w fails have "isl out" by simp
  then obtain e where out: "out = Inl e" by (cases out) auto
  with r rb have res: "res = Inl (Some e)" and len: "1 + int (length outs) = n" by simp_all
  let ?new = "failedAttempts meth ?u ?ro 1 outs @ [Fetch meth ?u ?ro out]"
  have "length (filter isFetch ?new) = Suc (length outs)"
    by (rule fetches_failedAttempts)
  also have "\<dots> = nat n" using len by linarith
  finally have "length (filter isFetch ?new) = nat n" .
  moreover have "last ?new = Fetch meth ?u ?ro (Inl e)" using out by simp
  ultimately show ?thesis using c res by blast
qed

theorem retries_exhausted_witness:
  "makeRequest platform0 (client0 alwaysFails) ''GET'' ''/x'' (options0\<lparr>opt_retries := Some 2\<rparr>)
     runtime0 =
     (Inl (Some (Error ''ECONNREFUSED II'')),
      \<lparr>world = 2,
       calls = [Fetch ''GET'' ''https://api.example/x'' sent0 (Inl (Error ''ECONNREFUSED I'')),
                SetTimeout 1000,
                Fetch ''GET'' ''https://api.example/x'' sent0 (Inl (Error ''ECONNREFUSED II''))],
       apiResponseTimes = []\<rparr>) \<and>
   length (filter isFetch
     [Fetch ''GET'' ''https://api.example/x'' sent0 (Inl (Error ''ECONNREFUSED I'')),
      SetTimeout 1000,
      Fetch ''GET'' ''https://api.example/x'' sent0 (Inl (Error ''ECONNREFUSED II''))]) = 2"
proof -
  let ?new = "[Fetch ''GET'' ''https://api.example/x'' sent0 (Inl (Error ''ECONNREFUSED I'')),
                SetTimeout 1000,
                Fetch ''GET'' ''https://api.example/x'' sent0 (Inl (Error ''ECONNREFUSED II''))]"
  let ?s = "\<lparr>world = 2, calls = ?new, apiResponseTimes = []\<rparr> :: nat runtime"
  have verb: "supported ''GET''" by (simp add: supported_def)
  have budget: "opt_retries (options0\<lparr>opt_retries := Some 2\<rparr>) = Some 2" "(1::int) \<le> 2"
    by simp_all
  have fails: "\<forall>m u ro w. isl (fst (request (client0 alwaysFails) m u ro w))"
    by (simp add: client0_def new_ApiClient_def alwaysFails_def)
  have run: "makeRequest platform0 (client0 alwaysFails) ''GET'' ''/x''
      (options0\<lparr>opt_retries := Some 2\<rparr>) runtime0 = (Inl (Some (Error ''ECONNREFUSED II'')), ?s)"
    by code_simp
  from retries_exhausted [OF verb budget fails run]
  obtain new e where "calls ?s = calls runtime0 @ new" and "length (filter isFetch new) = nat 2"
    by (elim exE conjE) (rule that, assumption+)
  then have "length (filter isFetch ?new) = 2" by (simp add: runtime0_def)
  with run show ?thesis by (intro conjI)
qed

text \<open>
  C9. A request with one of the five verbs and a retry budget of at least 1 makes its
  calls in this order: for \<open>k = 1, 2, ...\<close> the transport call of attempt \<open>k\<close>, which
  fails, and then a wait of \<open>1000 * k\<close> ms; then the transport call of the last
  attempt. Each call is made in the world left by the calls and the waits before it.
  The delays are \<open>1000, 2000, ...\<close>, so they never decrease. A last call that fails
  has used up the budget, and its error is thrown; a last call that delivers its
  response gives the result. So when the first \<open>j\<close> attempts fail, with \<open>j\<close> below the
  budget, and attempt \<open>j + 1\<close> delivers, the request makes exactly these \<open>j + 1\<close> attempts
  and returns the response.
\<close>

theorem linear_backoff:
  assumes verb: "supported meth"
    and budget: "1 \<le> retryBudget options"
    and run: "makeRequest P c meth path options s = (res, s')"
  shows "\<exists>outs out.
           drop (length (calls s)) (calls s') =
             failedAttempts meth (finalUrl c path) (sentOptions P c meth options) 1 outs @
             [Fetch meth (finalUrl c path) (sentOptions P c meth options) out] \<and>
           (\<forall>i<length outs.
              outs ! i = fst (request c meth (finalUrl c path) (sentOptions P c meth options)
                (worldFrom P c meth (finalUrl c path) (sentOptions P c meth options) 1 i (world s))) \<and>
              failure (outs ! i) \<noteq> None) \<and>
           out = fst (request c meth (finalUrl c path) (sentOptions P c meth options)
             (worldFrom P c meth (finalUrl c path) (sentOptions P c meth options) 1 (length outs)
               (world s))) \<and>
           int (length outs) < retryBudget options \<and>
           delays (drop (length (calls s)) (calls s')) =
             map (\<lambda>k. 1000 * int k) [1..<Suc (length outs)] \<and>
           sorted (delays (drop (length (calls s)) (calls s'))) \<and>
           (\<forall>e. failure out = Some e \<longrightarrow>
              res = Inl (Some e) \<and> 1 + int (length outs) = retryBudget options) \<and>
           (failure out = None \<longrightarrow>
              (\<exists>r rt d. out = Inr r \<and> parseResponse P r meth (finalUrl c path) rt = Inr d \<and>
                 res = Inr d)) \<and>
           (\<forall>j. int j < retryBudget options \<and>
              (\<forall>i<j. failure (fst (request c meth (finalUrl c path) (sentOptions P c meth options)
                 (worldFrom P c meth (finalUrl c path) (sentOptions P c meth options) 1 i
                   (world s)))) \<noteq> None) \<and>
              failure (fst (request c meth (finalUrl c path) (sentOptions P c meth options)
                 (worldFrom P c meth (finalUrl c path) (sentOptions P c meth options) 1 j
                   (world s)))) = None \<longrightarrow>
              length outs = j \<and> \<not> isl res)"
proof -
  let ?u = "finalUrl c path" and ?ro = "sentOptions P c meth options"
  let ?W = "\<lambda>i. worldFrom P c meth ?u ?ro 1 i (world s)"
  from makeRequest_shape [OF verb budget run]
  obtain outs out where
    c: "calls s' = calls s @ failedAttempts meth ?u ?ro 1 outs @ [Fetch meth ?u ?ro out]"
    and l: "1 + int (length outs) \<le> retryBudget options"
    and f: "\<forall>i<length outs. outs ! i = fst (request c meth ?u ?ro (?W i)) \<and>
              failure (outs ! i) \<noteq> None"
    and o: "out = fst (request c meth ?u ?ro (?W (length outs)))"
    and r: "(case failure out of
         None \<Rightarrow> \<exists>r rt d. out = Inr r \<and> parseResponse P r meth ?u rt = Inr d \<and> res = Inr d
       | Some e \<Rightarrow> res = Inl (Some e) \<and> 1 + int (length outs) = retryBudget options)"
    by (elim exE conjE) (rule that, assumption+)
  let ?new = "failedAttempts meth ?u ?ro 1 outs @ [Fetch meth ?u ?ro out]"
  have d: "drop (length (calls s)) (calls s') = ?new" using c by simp
  have ds: "delays ?new = map (\<lambda>k. 1000 * int k) [1..<Suc (length outs)]"
    by (simp only: delays_failedAttempts) simp
  have srt: "sorted (delays ?new)" unfolding ds by (rule sorted_backoff)
  have lt: "int (length outs) < retryBudget options" using l by linarith
  have bad: "\<forall>e. failure out = Some e \<longrightarrow>
      res = Inl (Some e) \<and> 1 + int (length outs) = retryBudget options"
    using r by auto
  have good: "failure out = None \<longrightarrow>
      (\<exists>r rt d. out = Inr r \<and> parseResponse P r meth ?u rt = Inr d \<and> res = Inr d)"
    using r by auto
  have first: "\<forall>j. int j < retryBudget options \<and>
      (\<forall>i<j. failure (fst (request c meth ?u ?ro (?W i))) \<noteq> None) \<and>
      failure (fst (request c meth ?u ?ro (?W j))) = None \<longrightarrow>
      length outs = j \<and> \<not> isl res"
  proof (intro allI impI, elim conjE)
    fix j
    assume jb: "int j < retryBudget options"
      and before: "\<forall>i<j. failure (fst (request c meth ?u ?ro (?W i))) \<noteq> None"
      and at: "failure (fst (request c meth ?u ?ro (?W j))) = None"
    have "\<not> j < length outs"
    proof
      assume "j < length outs"
      with f have "failure (fst (request c meth ?u ?ro (?W j))) \<noteq> None" by auto
      with at show False by simp
    qed
    moreover have "\<not> length outs < j"
    proof
      assume less: "length outs < j"
      with before o have "failure out \<noteq> None" by simp
      then obtain e where "failure out = Some e" by auto
      with bad have "1 + int (length outs) = retryBudget options" by simp
      with less jb show False by linarith
    qed
    ultimately have eq: "length outs = j" by linarith
    with o at have "failure out = None" by simp
    with good have "\<not> isl res" by auto
    with eq show "length outs = j \<and> \<not> isl res" by simp
  qed
  show ?thesis
    unfolding d
    by (intro exI [of _ outs] exI [of _ out] conjI refl f o lt ds srt bad good first)
qed

theorem linear_backoff_witness:
  "makeRequest platform0 (client0 failsTwice) ''GET'' ''/x'' (options0\<lparr>opt_retries := Some 3\<rparr>)
     runtime0 =
     (Inr \<lparr>status = 200, statusText = ''OK'', body = JStr ''not-json{'', rawBody = ''not-json{'',
           headers = [(''Content-Type'', ''text/plain'')], responseTime = 250,
           url = ''https://api.example/x'', method = ''GET''\<rparr>,
      \<lparr>world = 3,
       calls = [Fetch ''GET'' ''https://api.example/x'' sent0 (Inl (Error ''ECONNRESET'')),
                SetTimeout 1000,
                Fetch ''GET'' ''https://api.example/x'' sent0 (Inl (Error ''ECONNRESET'')),
                SetTimeout 2000,
                Fetch ''GET'' ''https://api.example/x'' sent0 (Inr response200)],
       apiResponseTimes = [250]\<rparr>) \<and>
   sorted (delays
     [Fetch ''GET'' ''https://api.example/x'' sent0 (Inl (Error ''ECONNRESET'')),
      SetTimeout 1000,
      Fetch ''GET'' ''https://api.example/x'' sent0 (Inl (Error ''ECONNRESET'')),
      SetTimeout 2000,
      Fetch ''GET'' ''https://api.example/x'' sent0 (Inr response200)]) \<and>
   delays
     [Fetch ''GET'' ''https://api.example/x'' sent0 (Inl (Error ''ECONNRESET'')),
      SetTimeout 1000,
      Fetch ''GET'' ''https://api.example/x'' sent0 (Inl (Error ''ECONNRESET'')),
      SetTimeout 2000,
      Fetch ''GET'' ''https://api.example/x'' sent0 (Inr response200)] = [1000, 2000]"
proof -
  let ?new = "[Fetch ''GET'' ''https://api.example/x'' sent0 (Inl (Error ''ECONNRESET'')),
                SetTimeout 1000,
                Fetch ''GET'' ''https://api.example/x'' sent0 (Inl (Error ''ECONNRESET'')),
                SetTimeout 2000,
                Fetch ''GET'' ''https://api.example/x'' sent0 (Inr response200)]"
  let ?d = "\<lparr>status = 200, statusText = ''OK'', body = JStr ''not-json{'', rawBody = ''not-json{'',
           headers = [(''Content-Type'', ''text/plain'')], responseTime = 250,
           url = ''https://api.example/x'', method = ''GET''\<rparr>"
  let ?s = "\<lparr>world = 3, calls = ?new, apiResponseTimes = [250]\<rparr> :: nat runtime"
  have verb: "supported ''GET''" by (simp add: supported_def)
  have budget: "1 \<le> retryBudget (options0\<lparr>opt_retries := Some 3\<rparr>)"
    by (simp add: retryBudget_def)
  have run: "makeRequest platform0 (client0 failsTwice) ''GET'' ''/x''
      (options0\<lparr>opt_retries := Some 3\<rparr>) runtime0 = (Inr ?d, ?s)"
    by code_simp
  from linear_backoff [OF verb budget run]
  obtain outs out where "sorted (delays (drop (length (calls runtime0)) (calls ?s)))"
    by (elim exE conjE) (rule that, assumption+)
  then have "sorted (delays ?new)" by (simp add: runtime0_def)
  moreover have "delays ?new = [1000, 2000]" by simp
  ultimately show ?thesis using run by (intro conjI)
qed

text \<open>
  C10. With \<open>retries = 0\<close> the loop body never runs: the request makes no call at all
  and throws \<open>null\<close>, the initial value of \<open>lastError\<close>.
\<close>

theorem zero_retries_throws_null:
  "makeRequest P c meth path (options\<lparr>opt_retries := Some 0\<rparr>) s = (Inl None, s)"
  by (simp add: makeRequest_def Let_def attemptLoop_done)

text \<open>
  C5, as stated: the final URL is the path itself when the path is absolute, as
  recognised by its URL-scheme prefix, and \<open>baseUrl\<close> followed by the path otherwise.
  It fails both ways: the path \<open>httpfoo\<close> has no scheme, yet the request goes to
  \<open>httpfoo\<close>; the path \<open>HTTP://UP.example/x\<close> has one, yet the request goes to \<open>baseUrl\<close>
  followed by the path.
\<close>

theorem final_url_counterexample:
  "\<not> specAbsolute ''httpfoo'' \<and>
   specFinalUrl (client0 notFound) ''httpfoo'' = ''https://api.examplehttpfoo'' \<and>
   calls (snd (get platform0 (client0 notFound) ''httpfoo'' options0 runtime0)) =
     [Fetch ''GET'' ''httpfoo'' sent0 (Inr response404)] \<and>
   specAbsolute ''HTTP://UP.example/x'' \<and>
   specFinalUrl (client0 notFound) ''HTTP://UP.example/x'' = ''HTTP://UP.example/x'' \<and>
   calls (snd (get platform0 (client0 notFound) ''HTTP://UP.example/x'' options0 runtime0)) =
     [Fetch ''GET'' ''https://api.exampleHTTP://UP.example/x'' sent0 (Inr response404)]"
  by code_simp

text \<open>
  C5, amended. Every transport call of a request goes to the path itself when the path
  starts with the four characters \<open>http\<close>, and to \<open>baseUrl\<close> followed by the path
  otherwise; a returned response carries the same URL.
\<close>

theorem final_url:
  assumes run: "makeRequest P c meth path options s = (res, s')"
  shows "(\<forall>m u ro r. Fetch m u ro r \<in> set (drop (length (calls s)) (calls s')) \<longrightarrow>
            u = (if prefix ''http'' path then path else baseUrl c @ path)) \<and>
         (\<forall>d. res = Inr d \<longrightarrow> url d = (if prefix ''http'' path then path else baseUrl c @ path))"
proof -
  let ?u = "finalUrl c path" and ?ro = "sentOptions P c meth options"
  from makeRequest_trace [OF run] obtain pre where
    pre: "\<forall>x\<in>set pre. (\<exists>ms. x = SetTimeout ms) \<or>
            (\<exists>out. x = Fetch meth ?u ?ro out \<and> failure out \<noteq> None)"
    and alt: "(\<exists>r rt d. calls s' = calls s @ pre @ [Fetch meth ?u ?ro (Inr r)] \<and>
              parseResponse P r meth ?u rt = Inr d \<and> res = Inr d) \<or>
      (calls s' = calls s @ pre \<and> isl res)"
    by blast
  have u: "?u = (if prefix ''http'' path then path else baseUrl c @ path)"
    by (simp add: finalUrl_def)
  from alt show ?thesis
  proof
    assume "\<exists>r rt d. calls s' = calls s @ pre @ [Fetch meth ?u ?ro (Inr r)] \<and>
              parseResponse P r meth ?u rt = Inr d \<and> res = Inr d"
    then obtain r0 rt d0
      where c: "drop (length (calls s)) (calls s') = pre @ [Fetch meth ?u ?ro (Inr r0)]"
      and d0: "parseResponse P r0 meth ?u rt = Inr d0" and res: "res = Inr d0"
      by auto
    have "\<forall>m u ro r. Fetch m u ro r \<in> set (pre @ [Fetch meth ?u ?ro (Inr r0)]) \<longrightarrow> u = ?u"
      using pre by auto
    moreover have "url d0 = ?u"
      using d0 by (auto simp: parseResponse_def Let_def split: sum.splits)
    then have "\<forall>d. res = Inr d \<longrightarrow> url d = ?u" using res by simp
    ultimately show ?thesis unfolding c u by blast
  next
    assume a: "calls s' = calls s @ pre \<and> isl res"
    then have c: "drop (length (calls s)) (calls s') = pre" by simp
    have "\<forall>m u ro r. Fetch m u ro r \<in> set pre \<longrightarrow> u = ?u" using pre by auto
    moreover have "\<forall>d. res = Inr d \<longrightarrow> url d = ?u" using a by auto
    ultimately show ?thesis unfolding c u by blast
  qed
qed

theorem final_url_witness:
  "get platform0 (client0 notFound) ''https://other.example/x'' options0 runtime0 =
     (Inr \<lparr>status = 404, statusText = ''Not Found'', body = JObj [], rawBody = ''{}'',
           headers = [(''content-type'', ''application/json'')], responseTime = 250,
           url = ''https://other.example/x'', method = ''GET''\<rparr>,
      \<lparr>world = 1,
       calls = [Fetch ''GET'' ''https://other.example/x'' sent0 (Inr response404)],
       apiResponseTimes = [250]\<rparr>) \<and>
   baseUrl (client0 notFound) = ''https://api.example'' \<and>
   ''https://other.example/x'' =
     (if prefix ''http'' ''https://other.example/x'' then ''https://other.example/x''
      else baseUrl (client0 notFound) @ ''https://other.example/x'')"
proof -
  let ?d = "\<lparr>status = 404, statusText = ''Not Found'', body = JObj [], rawBody = ''{}'',
           headers = [(''content-type'', ''application/json'')], responseTime = 250,
           url = ''https://other.example/x'', method = ''GET''\<rparr>"
  let ?f = "Fetch ''GET'' ''https://other.example/x'' sent0 (Inr response404)"
  let ?s = "\<lparr>world = 1, calls = [?f], apiResponseTimes = [250]\<rparr> :: nat runtime"
  have run: "makeRequest platform0 (client0 notFound) ''GET'' ''https://other.example/x''
      options0 runtime0 = (Inr ?d, ?s)"
    by code_simp
  have "?f \<in> set (drop (length (calls runtime0)) (calls ?s))" by (simp add: runtime0_def)
  with final_url [OF run]
  have "''https://other.example/x'' =
     (if prefix ''http'' ''https://other.example/x'' then ''https://other.example/x''
      else baseUrl (client0 notFound) @ ''https://other.example/x'')"
    by blast
  moreover have "baseUrl (client0 notFound) = ''https://api.example''"
    by (simp add: client0_def new_ApiClient_def)
  ultimately show ?thesis using run by (simp add: get_def)
qed

section \<open>Response normalization: properties\<close>

lemma keys_assign:
  "fst ` set (assign h k v) = (if k = ''__proto__'' then fst ` set h else insert k (fst ` set h))"
  by (simp add: assign_def dom_update)

lemma map_of_assign:
  "k \<noteq> ''__proto__'' \<Longrightarrow>
   map_of (assign h k' v') k = (if k' = k then Some v' else map_of h k)"
  by (auto simp: assign_def update_conv')

lemma fold_assign_keys:
  "fst ` set (fold (\<lambda>(key, v) h. assign h key v) hs h0) =
     fst ` set h0 \<union> (fst ` set hs - {''__proto__''})"
proof (induction hs arbitrary: h0)
  case Nil
  then show ?case by simp
next
  case (Cons x xs)
  obtain k v where x: "x = (k, v)" by (cases x)
  have "fst ` set (fold (\<lambda>(key, v) h. assign h key v) (x # xs) h0) =
      fst ` set (assign h0 k v) \<union> (fst ` set xs - {''__proto__''})"
    unfolding x by (simp add: Cons.IH)
  also have "\<dots> = fst ` set h0 \<union> (fst ` set (x # xs) - {''__proto__''})"
    unfolding x keys_assign by auto
  finally show ?case .
qed

lemma fold_assign_map_of:
  "k \<noteq> ''__proto__'' \<Longrightarrow>
   map_of (fold (\<lambda>(key, v) h. assign h key v) hs h0) k =
     (case map_of (rev hs) k of Some v \<Rightarrow> Some v | None \<Rightarrow> map_of h0 k)"
proof (induction hs arbitrary: h0)
  case Nil
  then show ?case by simp
next
  case (Cons x xs)
  obtain k' v' where x: "x = (k', v')" by (cases x)
  have "map_of (fold (\<lambda>(key, v) h. assign h key v) (x # xs) h0) k =
      (case map_of (rev xs) k of Some v \<Rightarrow> Some v | None \<Rightarrow> map_of (assign h0 k' v') k)"
    unfolding x by (simp add: Cons.IH [OF Cons.prems])
  also have "\<dots> = (case map_of (rev (x # xs)) k of Some v \<Rightarrow> Some v | None \<Rightarrow> map_of h0 k)"
    unfolding x by (simp add: map_of_assign [OF Cons.prems] map_add_def split: option.splits)
  finally show ?case .
qed

lemma parseResponse_headers:
  "parseResponse P r meth u rt = Inr d \<Longrightarrow>
   headers d = fold (\<lambda>(key, v) h. assign h key v) (resp_headers r) []"
  by (cases "resp_text r") (auto simp: parseResponse_def Let_def)

lemma parseResponse_headers_keys:
  "parseResponse P r meth u rt = Inr d \<Longrightarrow>
   fst ` set (headers d) = fst ` set (resp_headers r) - {''__proto__''}"
  by (simp add: parseResponse_headers fold_assign_keys)

lemma parseResponse_headers_map_of:
  "parseResponse P r meth u rt = Inr d \<Longrightarrow> k \<noteq> ''__proto__'' \<Longrightarrow>
   map_of (headers d) k = map_of (rev (resp_headers r)) k"
  by (simp add: parseResponse_headers fold_assign_map_of split: option.splits)

text \<open>
  C3, as stated: all keys of the headers map of a returned response are lower-cased,
  whatever the casing of the names the transport supplies. It fails: the transport
  \<open>plainText\<close> supplies the name \<open>Content-Type\<close>, and the returned map has the key
  \<open>Content-Type\<close>.
\<close>

theorem headers_lower_cased_counterexample:
  "fst (get platform0 (client0 plainText) ''/x'' options0 runtime0) =
     Inr \<lparr>status = 200, statusText = ''OK'', body = JStr ''not-json{'', rawBody = ''not-json{'',
          headers = [(''Content-Type'', ''text/plain'')], responseTime = 250,
          url = ''https://api.example/x'', method = ''GET''\<rparr> \<and>
   \<not> lowerCased ''Content-Type''"
  by code_simp

text \<open>
  C3, amended. A returned response is the normalization of the response that answered
  the last transport call, and its headers map has the names that response supplies
  (a name \<open>__proto__\<close> apart), in the casing supplied, each with the value supplied
  last: the client does not change the casing. So the keys are lower-cased when the
  transport supplies lower-cased names.
\<close>

theorem headers_copied_verbatim:
  assumes run: "makeRequest P c meth path options s = (Inr d, s')"
  shows "\<exists>m u ro r. last (calls s') = Fetch m u ro (Inr r) \<and>
           fst ` set (headers d) = fst ` set (resp_headers r) - {''__proto__''} \<and>
           (\<forall>k. k \<noteq> ''__proto__'' \<longrightarrow> map_of (headers d) k = map_of (rev (resp_headers r)) k) \<and>
           ((\<forall>k\<in>fst ` set (resp_headers r). lowerCased k) \<longrightarrow>
              (\<forall>k\<in>fst ` set (headers d). lowerCased k))"
proof -
  let ?u = "finalUrl c path" and ?ro = "sentOptions P c meth options"
  from makeRequest_trace [OF run] obtain pre r rt where
    c: "calls s' = calls s @ pre @ [Fetch meth ?u ?ro (Inr r)]"
    and d: "parseResponse P r meth ?u rt = Inr d"
    by auto
  have "last (calls s') = Fetch meth ?u ?ro (Inr r)" using c by simp
  moreover have keys: "fst ` set (headers d) = fst ` set (resp_headers r) - {''__proto__''}"
    using d by (rule parseResponse_headers_keys)
  moreover have "\<forall>k. k \<noteq> ''__proto__'' \<longrightarrow>
      map_of (headers d) k = map_of (rev (resp_headers r)) k"
    using d by (simp add: parseResponse_headers_map_of)
  moreover have "(\<forall>k\<in>fst ` set (resp_headers r). lowerCased k) \<longrightarrow>
      (\<forall>k\<in>fst ` set (headers d). lowerCased k)"
    unfolding keys by blast
  ultimately show ?thesis by blast
qed

theorem headers_copied_verbatim_witness:
  "makeRequest platform0 (client0 notFound) ''GET'' ''/missing'' options0 runtime0 =
     (Inr data404, runtime404) \<and>
   headers data404 = [(''content-type'', ''application/json'')] \<and>
   resp_headers response404 = [(''content-type'', ''application/json'')] \<and>
   fst ` set (headers data404) = fst ` set (resp_headers response404) - {''__proto__''} \<and>
   list_all lowerCased (map fst (headers data404))"
proof -
  have run: "makeRequest platform0 (client0 notFound) ''GET'' ''/missing'' options0 runtime0 =
      (Inr data404, runtime404)"
    by code_simp
  have lc: "lowerCased ''content-type''" by code_simp
  have hd: "headers data404 = [(''content-type'', ''application/json'')]"
    by (simp add: data404_def)
  have hr: "resp_headers response404 = [(''content-type'', ''application/json'')]"
    by (simp add: response404_def)
  have lst: "last (calls runtime404) =
      Fetch ''GET'' ''https://api.example/missing'' sent0 (Inr response404)"
    by (simp add: runtime404_def)
  have low404: "\<forall>k\<in>fst ` set (resp_headers response404). lowerCased k"
    unfolding hr using lc by simp
  from headers_copied_verbatim [OF run]
  obtain m u ro r where l: "last (calls runtime404) = Fetch m u ro (Inr r)"
    and k: "fst ` set (headers data404) = fst ` set (resp_headers r) - {''__proto__''}"
    and low: "(\<forall>k\<in>fst ` set (resp_headers r). lowerCased k) \<longrightarrow>
              (\<forall>k\<in>fst ` set (headers data404). lowerCased k)"
    by (elim exE conjE) (rule that, assumption+)
  from l have r: "r = response404" unfolding lst by simp
  from low low404 have "\<forall>k\<in>fst ` set (headers data404). lowerCased k"
    unfolding r by (rule mp)
  then have "list_all lowerCased (map fst (headers data404))"
    by (simp add: list_all_iff)
  moreover from k have "fst ` set (headers data404) =
      fst ` set (resp_headers response404) - {''__proto__''}"
    unfolding r .
  ultimately show ?thesis using run hd hr by (intro conjI)
qed

text \<open>
  C4. Normalization of a response whose text \<open>t\<close> is read keeps \<open>t\<close> unchanged as
  \<open>rawBody\<close>; \<open>body\<close> is what \<open>JSON.parse\<close> makes of \<open>t\<close> when it succeeds, and \<open>t\<close>
  itself, as a string, when it throws. When the text cannot be read, normalization
  throws the error of the read.
\<close>

theorem body_parsed_or_raw:
  "case resp_text r of
     Inl e \<Rightarrow> parseResponse P r meth u rt = Inl e
   | Inr t \<Rightarrow>
       (\<exists>d. parseResponse P r meth u rt = Inr d \<and> rawBody d = t \<and>
          (\<forall>v. JSON_parse P t = Some v \<longrightarrow> body d = v) \<and>
          (JSON_parse P t = None \<longrightarrow> body d = JStr t))"
  by (simp add: parseResponse_def Let_def split: sum.splits)

theorem body_parsed_or_raw_witness:
  "resp_text response200 = Inr ''not-json{'' \<and>
   JSON_parse platform0 ''not-json{'' = None \<and>
   (\<exists>d. parseResponse platform0 response200 ''GET'' ''https://api.example/x'' 250 = Inr d \<and>
      body d = JStr ''not-json{'' \<and> rawBody d = ''not-json{'') \<and>
   resp_text response201 = Inr ''{\"a\":1}'' \<and>
   JSON_parse platform0 ''{\"a\":1}'' = Some (JObj [(''a'', JNum 1)]) \<and>
   (\<exists>d. parseResponse platform0 response201 ''POST'' ''https://api.example/x'' 250 = Inr d \<and>
      body d = JObj [(''a'', JNum 1)] \<and> rawBody d = ''{\"a\":1}'')"
proof -
  have t0: "resp_text response200 = Inr ''not-json{''" by (simp add: response200_def)
  have n: "JSON_parse platform0 ''not-json{'' = None" by code_simp
  have t1: "resp_text response201 = Inr ''{\"a\":1}''" by (simp add: response201_def)
  have p: "JSON_parse platform0 ''{\"a\":1}'' = Some (JObj [(''a'', JNum 1)])" by code_simp
  note a = body_parsed_or_raw [where r = response200 and P = platform0
      and meth = "''GET''" and u = "''https://api.example/x''" and rt = 250]
  note b = body_parsed_or_raw [where r = response201 and P = platform0
      and meth = "''POST''" and u = "''https://api.example/x''" and rt = 250]
  from a have "\<exists>d. parseResponse platform0 response200 ''GET'' ''https://api.example/x'' 250 = Inr d \<and>
      body d = JStr ''not-json{'' \<and> rawBody d = ''not-json{''"
    unfolding t0 using n by auto
  moreover from b
  have "\<exists>d. parseResponse platform0 response201 ''POST'' ''https://api.example/x'' 250 = Inr d \<and>
      body d = JObj [(''a'', JNum 1)] \<and> rawBody d = ''{\"a\":1}''"
    unfolding t1 using p by auto
  ultimately show ?thesis using t0 n t1 p by (intro conjI)
qed

section \<open>The locator resolution engine: properties\<close>

lemma waitVisible_eq:
  "waitVisible W loc tmo s =
     (fst (W loc tmo (page s)),
      s\<lparr>page := snd (W loc tmo (page s)),
        waits := waits s @ [WaitFor loc tmo (fst (W loc tmo (page s)))]\<rparr>)"
  by (simp add: waitVisible_def split: prod.splits)

lemma failedWaits_Nil [simp]: "failedWaits [] ctx = []"
  by (simp add: failedWaits_def)

lemma failedWaits_Cons [simp]:
  "failedWaits (h # hs) ctx = WaitFor (First (locate h ctx)) 2000 False # failedWaits hs ctx"
  by (simp add: failedWaits_def)

lemma candidates_Cons [simp]:
  "candidates (h # hs) ctx = First (locate h ctx) # candidates hs ctx"
  by (simp add: candidates_def)

lemma candidates_Nil [simp]: "candidates [] ctx = []"
  by (simp add: candidates_def)

lemma length_candidates [simp]: "length (candidates hs ctx) = length hs"
  by (simp add: candidates_def)

lemma failedWaits_candidates:
  "failedWaits (take k hs) ctx = map (\<lambda>l. WaitFor l 2000 False) (take k (candidates hs ctx))"
  by (simp add: failedWaits_def candidates_def take_map comp_def)

lemma tryI:
  assumes "k \<le> length hs"
    and "\<forall>i<k. \<not> fst (W (candidates hs ctx ! i) 2000
           (pageAfter W (take i (candidates hs ctx)) (page s)))"
    and "k < length hs \<longrightarrow>
           fst (W (candidates hs ctx ! k) 2000 (pageAfter W (take k (candidates hs ctx)) (page s)))"
    and "waits s' = waits s @ failedWaits (take k hs) ctx @
           (if k < length hs then [WaitFor (candidates hs ctx ! k) 2000 True] else [])"
    and "page s' = pageAfter W (take (Suc k) (candidates hs ctx)) (page s)"
    and "res = (if k < length hs then Some (candidates hs ctx ! k) else None)"
  shows "\<exists>k\<le>length hs.
     (\<forall>i<k. \<not> fst (W (candidates hs ctx ! i) 2000
        (pageAfter W (take i (candidates hs ctx)) (page s)))) \<and>
     (k < length hs \<longrightarrow>
        fst (W (candidates hs ctx ! k) 2000 (pageAfter W (take k (candidates hs ctx)) (page s)))) \<and>
     waits s' = waits s @ failedWaits (take k hs) ctx @
        (if k < length hs then [WaitFor (candidates hs ctx ! k) 2000 True] else []) \<and>
     page s' = pageAfter W (take (Suc k) (candidates hs ctx)) (page s) \<and>
     res = (if k < length hs then Some (candidates hs ctx ! k) else None)"
  using assms by blast

text \<open>
  The loop over the strategies waits for their locators in the order of the list, each
  at most once and each on the page the waits before it have left, and stops at the
  first wait that resolves: \<open>k\<close> is the position of that wait, or the length of the
  list when no wait resolves.
\<close>

lemma tryStrategies_trace:
  "tryStrategies W hs ctx s = (res, s') \<Longrightarrow>
   \<exists>k\<le>length hs.
     (\<forall>i<k. \<not> fst (W (candidates hs ctx ! i) 2000
        (pageAfter W (take i (candidates hs ctx)) (page s)))) \<and>
     (k < length hs \<longrightarrow>
        fst (W (candidates hs ctx ! k) 2000 (pageAfter W (take k (candidates hs ctx)) (page s)))) \<and>
     waits s' = waits s @ failedWaits (take k hs) ctx @
        (if k < length hs then [WaitFor (candidates hs ctx ! k) 2000 True] else []) \<and>
     page s' = pageAfter W (take (Suc k) (candidates hs ctx)) (page s) \<and>
     res = (if k < length hs then Some (candidates hs ctx ! k) else None)"
proof (induction hs arbitrary: s)
  case Nil
  then show ?case by simp
next
  case (Cons h hs)
  let ?loc = "First (locate h ctx)"
  let ?ok = "fst (W ?loc 2000 (page s))"
  let ?s1 = "s\<lparr>page := snd (W ?loc 2000 (page s)), waits := waits s @ [WaitFor ?loc 2000 ?ok]\<rparr>"
  show ?case
  proof (cases ?ok)
    case True
    with Cons.prems have res: "res = Some ?loc" and s': "s' = ?s1"
      by (simp_all add: waitVisible_eq Let_def)
    show ?thesis
    proof (rule tryI [where k = 0])
      show "waits s' = waits s @ failedWaits (take 0 (h # hs)) ctx @
           (if 0 < length (h # hs) then [WaitFor (candidates (h # hs) ctx ! 0) 2000 True] else [])"
        using s' True by simp
      show "page s' = pageAfter W (take (Suc 0) (candidates (h # hs) ctx)) (page s)"
        using s' by simp
    qed (use True res in simp_all)
  next
    case False
    with Cons.prems have rest: "tryStrategies W hs ctx ?s1 = (res, s')"
      by (simp add: waitVisible_eq Let_def)
    from Cons.IH [OF rest] obtain k where k: "k \<le> length hs"
      and before: "\<forall>i<k. \<not> fst (W (candidates hs ctx ! i) 2000
        (pageAfter W (take i (candidates hs ctx)) (page ?s1)))"
      and at: "k < length hs \<longrightarrow>
        fst (W (candidates hs ctx ! k) 2000 (pageAfter W (take k (candidates hs ctx)) (page ?s1)))"
      and w: "waits s' = waits ?s1 @ failedWaits (take k hs) ctx @
        (if k < length hs then [WaitFor (candidates hs ctx ! k) 2000 True] else [])"
      and p: "page s' = pageAfter W (take (Suc k) (candidates hs ctx)) (page ?s1)"
      and r: "res = (if k < length hs then Some (candidates hs ctx ! k) else None)"
      by (elim exE conjE) (rule that, assumption+)
    show ?thesis
    proof (rule tryI [where k = "Suc k"])
      show "Suc k \<le> length (h # hs)" using k by simp
      show "\<forall>i<Suc k. \<not> fst (W (candidates (h # hs) ctx ! i) 2000
           (pageAfter W (take i (candidates (h # hs) ctx)) (page s)))"
      proof (intro allI impI)
        fix i assume i: "i < Suc k"
        show "\<not> fst (W (candidates (h # hs) ctx ! i) 2000
           (pageAfter W (take i (candidates (h # hs) ctx)) (page s)))"
        proof (cases i)
          case 0
          with False show ?thesis by simp
        next
          case (Suc j)
          with i have "j < k" by simp
          with before have "\<not> fst (W (candidates hs ctx ! j) 2000
            (pageAfter W (take j (candidates hs ctx)) (page ?s1)))" by blast
          with Suc show ?thesis by simp
        qed
      qed
      show "Suc k < length (h # hs) \<longrightarrow>
           fst (W (candidates (h # hs) ctx ! Suc k) 2000
             (pageAfter W (take (Suc k) (candidates (h # hs) ctx)) (page s)))"
        using at by simp
      show "waits s' = waits s @ failedWaits (take (Suc k) (h # hs)) ctx @
           (if Suc k < length (h # hs)
            then [WaitFor (candidates (h # hs) ctx ! Suc k) 2000 True] else [])"
        using w False by simp
      show "page s' = pageAfter W (take (Suc (Suc k)) (candidates (h # hs) ctx)) (page s)"
        using p by simp
      show "res = (if Suc k < length (h # hs) then Some (candidates (h # hs) ctx ! Suc k) else None)"
        using r by simp
    qed
  qed
qed

text \<open>
  C6. With healing disabled and a primary locator that does not become visible within
  \<open>config.timeout\<close>, the operation throws the error of the disabled case, whose message
  quotes \<open>context.originalSelector\<close>; the wait for the primary locator is the only wait
  made, so no strategy is tried.
\<close>

theorem disabled_healing_fails_fast:
  assumes "\<not> enabled config"
    and "\<not> fst (W primaryLocator (timeout config) (page s))"
  shows "autoHealLocator W primaryLocator ctx config s =
           (Inl (LocatorNotFound (originalSelector ctx)),
            s\<lparr>page := snd (W primaryLocator (timeout config) (page s)),
              waits := waits s @ [WaitFor primaryLocator (timeout config) False]\<rparr>) \<and>
         LocatorNotFound (originalSelector ctx) =
           Error (''Element not found: \"'' @ originalSelector ctx @ ''\". Auto-heal is disabled.'')"
  using assms by (simp add: autoHealLocator_def waitVisible_eq LocatorNotFound_def)

theorem disabled_healing_fails_fast_witness:
  "\<not> enabled (DEFAULT_CONFIG\<lparr>enabled := False\<rparr>) \<and>
   \<not> fst (staticPage (Css ''#old-submit-button'') (timeout (DEFAULT_CONFIG\<lparr>enabled := False\<rparr>))
          (page session0)) \<and>
   autoHealLocator staticPage (Css ''#old-submit-button'') submitContext
       (DEFAULT_CONFIG\<lparr>enabled := False\<rparr>) session0 =
     (Inl (Error ''Element not found: \"#old-submit-button\". Auto-heal is disabled.''),
      \<lparr>page = submitPage, waits = [WaitFor (Css ''#old-submit-button'') 5000 False]\<rparr>)"
proof -
  have off: "\<not> enabled (DEFAULT_CONFIG\<lparr>enabled := False\<rparr>)" by simp
  have gone: "\<not> fst (staticPage (Css ''#old-submit-button'')
      (timeout (DEFAULT_CONFIG\<lparr>enabled := False\<rparr>)) (page session0))"
    by (simp add: staticPage_def session0_def submitPage_def)
  from disabled_healing_fails_fast [where W = staticPage
      and primaryLocator = "Css ''#old-submit-button''"
      and config = "DEFAULT_CONFIG\<lparr>enabled := False\<rparr>" and s = session0
      and ctx = submitContext, OF off gone]
  have "autoHealLocator staticPage (Css ''#old-submit-button'') submitContext
       (DEFAULT_CONFIG\<lparr>enabled := False\<rparr>) session0 =
     (Inl (Error ''Element not found: \"#old-submit-button\". Auto-heal is disabled.''),
      \<lparr>page = submitPage, waits = [WaitFor (Css ''#old-submit-button'') 5000 False]\<rparr>)"
    by (simp add: submitContext_def DEFAULT_CONFIG_def staticPage_def session0_def)
  with off gone show ?thesis by blast
qed

text \<open>
  C7. The strategies are, in this order, role, exact text, placeholder, test id and
  partial text, and the locators they derive from a context are the five listed below.
  When healing runs (healing enabled, primary locator not visible), the waits after the
  primary one follow that order, one wait per strategy, each on the page the waits
  before it have left: \<open>k\<close> is the position of the first strategy whose wait resolves.
  The waits of the strategies before it have failed, its locator is returned, and no
  later strategy is tried, whether or not it would have matched; when no wait resolves,
  all five have been tried once and the operation throws.
\<close>

theorem first_strategy_wins:
  assumes "enabled config"
    and "\<not> fst (W primaryLocator (timeout config) (page s))"
    and "autoHealLocator W primaryLocator ctx config s = (res, s')"
  shows "map name HEALING_STRATEGIES =
           [''By Role'', ''By Text (exact)'', ''By Placeholder'', ''By Test ID'',
            ''By Text (partial)''] \<and>
         candidates HEALING_STRATEGIES ctx =
           [First (case role ctx of
                     None \<Rightarrow> Css ''__nonexistent__''
                   | Some r \<Rightarrow>
                       if r = [] then Css ''__nonexistent__''
                       else GetByRole r
                              (case text' ctx of
                                 None \<Rightarrow> None
                               | Some t \<Rightarrow> if t = [] then None else Some t)),
            First (case text' ctx of
                     None \<Rightarrow> Css ''__nonexistent__''
                   | Some t \<Rightarrow> if t = [] then Css ''__nonexistent__'' else GetByText t True),
            First (case placeholder ctx of
                     None \<Rightarrow> Css ''__nonexistent__''
                   | Some p \<Rightarrow> if p = [] then Css ''__nonexistent__'' else GetByPlaceholder p),
            First (case testId ctx of
                     None \<Rightarrow> Css ''__nonexistent__''
                   | Some i \<Rightarrow> if i = [] then Css ''__nonexistent__'' else GetByTestId i),
            First (case text' ctx of
                     None \<Rightarrow> Css ''__nonexistent__''
                   | Some t \<Rightarrow> if t = [] then Css ''__nonexistent__'' else GetByText t False)] \<and>
         (\<exists>k\<le>5.
            (\<forall>i<k. \<not> fst (W (candidates HEALING_STRATEGIES ctx ! i) 2000
               (pageAfter W (take i (candidates HEALING_STRATEGIES ctx))
                  (snd (W primaryLocator (timeout config) (page s)))))) \<and>
            (k < 5 \<longrightarrow>
               fst (W (candidates HEALING_STRATEGIES ctx ! k) 2000
                 (pageAfter W (take k (candidates HEALING_STRATEGIES ctx))
                    (snd (W primaryLocator (timeout config) (page s)))))) \<and>
            waits s' =
              waits s @ WaitFor primaryLocator (timeout config) False #
              map (\<lambda>l. WaitFor l 2000 False) (take k (candidates HEALING_STRATEGIES ctx)) @
              (if k < 5 then [WaitFor (candidates HEALING_STRATEGIES ctx ! k) 2000 True] else []) \<and>
            page s' =
              pageAfter W (take (Suc k) (candidates HEALING_STRATEGIES ctx))
                (snd (W primaryLocator (timeout config) (page s))) \<and>
            res =
              (if k < 5 then Inr (candidates HEALING_STRATEGIES ctx ! k)
               else Inl (LocatorHealFailed (originalSelector ctx))))"
proof -
  let ?s1 = "s\<lparr>page := snd (W primaryLocator (timeout config) (page s)),
               waits := waits s @ [WaitFor primaryLocator (timeout config) False]\<rparr>"
  let ?cs = "candidates HEALING_STRATEGIES ctx"
  obtain found s2 where t: "tryStrategies W HEALING_STRATEGIES ctx ?s1 = (found, s2)"
    by (cases "tryStrategies W HEALING_STRATEGIES ctx ?s1")
  from assms t have res: "res = (case found of Some l \<Rightarrow> Inr l
      | None \<Rightarrow> Inl (LocatorHealFailed (originalSelector ctx)))" and s': "s' = s2"
    by (auto simp: autoHealLocator_def waitVisible_eq split: option.splits)
  have len: "length HEALING_STRATEGIES = 5" by (simp add: HEALING_STRATEGIES_def)
  have names: "map name HEALING_STRATEGIES =
           [''By Role'', ''By Text (exact)'', ''By Placeholder'', ''By Test ID'',
            ''By Text (partial)'']"
    by (simp add: HEALING_STRATEGIES_def)
  have queries: "?cs =
           [First (case role ctx of
                     None \<Rightarrow> Css ''__nonexistent__''
                   | Some r \<Rightarrow>
                       if r = [] then Css ''__nonexistent__''
                       else GetByRole r
                              (case text' ctx of
                                 None \<Rightarrow> None
                               | Some t \<Rightarrow> if t = [] then None else Some t)),
            First (case text' ctx of
                     None \<Rightarrow> Css ''__nonexistent__''
                   | Some t \<Rightarrow> if t = [] then Css ''__nonexistent__'' else GetByText t True),
            First (case placeholder ctx of
                     None \<Rightarrow> Css ''__nonexistent__''
                   | Some p \<Rightarrow> if p = [] then Css ''__nonexistent__'' else GetByPlaceholder p),
            First (case testId ctx of
                     None \<Rightarrow> Css ''__nonexistent__''
                   | Some i \<Rightarrow> if i = [] then Css ''__nonexistent__'' else GetByTestId i),
            First (case text' ctx of
                     None \<Rightarrow> Css ''__nonexistent__''
                   | Some t \<Rightarrow> if t = [] then Css ''__nonexistent__'' else GetByText t False)]"
    by (simp add: candidates_def HEALING_STRATEGIES_def locateByRole_def locateByTextExact_def
        locateByPlaceholder_def locateByTestId_def locateByTextPartial_def
        split: option.splits)
  from tryStrategies_trace [OF t] obtain k where k: "k \<le> length HEALING_STRATEGIES"
    and before: "\<forall>i<k. \<not> fst (W (?cs ! i) 2000 (pageAfter W (take i ?cs) (page ?s1)))"
    and at: "k < length HEALING_STRATEGIES \<longrightarrow>
        fst (W (?cs ! k) 2000 (pageAfter W (take k ?cs) (page ?s1)))"
    and w: "waits s2 = waits ?s1 @ failedWaits (take k HEALING_STRATEGIES) ctx @
        (if k < length HEALING_STRATEGIES then [WaitFor (?cs ! k) 2000 True] else [])"
    and p: "page s2 = pageAfter W (take (Suc k) ?cs) (page ?s1)"
    and f: "found = (if k < length HEALING_STRATEGIES then Some (?cs ! k) else None)"
    by (elim exE conjE) (rule that, assumption+)
  have "k \<le> 5 \<and>
            (\<forall>i<k. \<not> fst (W (?cs ! i) 2000
               (pageAfter W (take i ?cs) (snd (W primaryLocator (timeout config) (page s)))))) \<and>
            (k < 5 \<longrightarrow>
               fst (W (?cs ! k) 2000
                 (pageAfter W (take k ?cs) (snd (W primaryLocator (timeout config) (page s)))))) \<and>
            waits s' =
              waits s @ WaitFor primaryLocator (timeout config) False #
              map (\<lambda>l. WaitFor l 2000 False) (take k ?cs) @
              (if k < 5 then [WaitFor (?cs ! k) 2000 True] else []) \<and>
            page s' =
              pageAfter W (take (Suc k) ?cs) (snd (W primaryLocator (timeout config) (page s))) \<and>
            res =
              (if k < 5 then Inr (?cs ! k) else Inl (LocatorHealFailed (originalSelector ctx)))"
    using k before at w p f res s' unfolding len failedWaits_candidates by simp
  then have "\<exists>k\<le>5.
            (\<forall>i<k. \<not> fst (W (?cs ! i) 2000
               (pageAfter W (take i ?cs) (snd (W primaryLocator (timeout config) (page s)))))) \<and>
            (k < 5 \<longrightarrow>
               fst (W (?cs ! k) 2000
                 (pageAfter W (take k ?cs) (snd (W primaryLocator (timeout config) (page s)))))) \<and>
            waits s' =
              waits s @ WaitFor primaryLocator (timeout config) False #
              map (\<lambda>l. WaitFor l 2000 False) (take k ?cs) @
              (if k < 5 then [WaitFor (?cs ! k) 2000 True] else []) \<and>
            page s' =
              pageAfter W (take (Suc k) ?cs) (snd (W primaryLocator (timeout config) (page s))) \<and>
            res =
              (if k < 5 then Inr (?cs ! k) else Inl (LocatorHealFailed (originalSelector ctx)))"
    by (rule exI [of _ k])
  with names queries show ?thesis by (intro conjI)
qed

theorem first_strategy_wins_witness:
  "enabled DEFAULT_CONFIG \<and>
   \<not> fst (staticPage (Css ''#old-submit-button'') (timeout DEFAULT_CONFIG) (page session0)) \<and>
   fst (staticPage (First (GetByText ''Submit'' False)) 2000 (page session0)) \<and>
   autoHealLocator staticPage (Css ''#old-submit-button'') submitContext DEFAULT_CONFIG session0 =
     (Inr (First (GetByRole ''button'' (Some ''Submit''))),
      \<lparr>page = submitPage,
       waits = [WaitFor (Css ''#old-submit-button'') 5000 False,
                WaitFor (First (GetByRole ''button'' (Some ''Submit''))) 2000 True]\<rparr>) \<and>
   \<not> fst (staticPage (Css ''#email'') (timeout DEFAULT_CONFIG) (page emailSession)) \<and>
   fst (staticPage (First (GetByText ''Email'' False)) 2000 (page emailSession)) \<and>
   autoHealLocator staticPage (Css ''#email'') emailContext DEFAULT_CONFIG emailSession =
     (Inr (First (GetByPlaceholder ''Email'')),
      \<lparr>page = emailPage,
       waits = [WaitFor (Css ''#email'') 5000 False,
                WaitFor (First (GetByRole ''textbox'' (Some ''Email''))) 2000 False,
                WaitFor (First (GetByText ''Email'' True)) 2000 False,
                WaitFor (First (GetByPlaceholder ''Email'')) 2000 True]\<rparr>) \<and>
   candidates HEALING_STRATEGIES emailContext =
     [First (GetByRole ''textbox'' (Some ''Email'')), First (GetByText ''Email'' True),
      First (GetByPlaceholder ''Email''), First (GetByTestId ''email-input''),
      First (GetByText ''Email'' False)]"
proof -
  have on: "enabled DEFAULT_CONFIG" by (simp add: DEFAULT_CONFIG_def)
  have gone: "\<not> fst (staticPage (Css ''#old-submit-button'') (timeout DEFAULT_CONFIG)
      (page session0))"
    by (simp add: staticPage_def session0_def submitPage_def)
  have later: "fst (staticPage (First (GetByText ''Submit'' False)) 2000 (page session0))"
    by (simp add: staticPage_def session0_def submitPage_def)
  have run: "autoHealLocator staticPage (Css ''#old-submit-button'') submitContext DEFAULT_CONFIG
      session0 =
     (Inr (First (GetByRole ''button'' (Some ''Submit''))),
      \<lparr>page = submitPage,
       waits = [WaitFor (Css ''#old-submit-button'') 5000 False,
                WaitFor (First (GetByRole ''button'' (Some ''Submit''))) 2000 True]\<rparr>)"
    by code_simp
  have gone': "\<not> fst (staticPage (Css ''#email'') (timeout DEFAULT_CONFIG) (page emailSession))"
    by (simp add: staticPage_def emailSession_def emailPage_def)
  have later': "fst (staticPage (First (GetByText ''Email'' False)) 2000 (page emailSession))"
    by (simp add: staticPage_def emailSession_def emailPage_def)
  have run': "autoHealLocator staticPage (Css ''#email'') emailContext DEFAULT_CONFIG
      emailSession =
     (Inr (First (GetByPlaceholder ''Email'')),
      \<lparr>page = emailPage,
       waits = [WaitFor (Css ''#email'') 5000 False,
                WaitFor (First (GetByRole ''textbox'' (Some ''Email''))) 2000 False,
                WaitFor (First (GetByText ''Email'' True)) 2000 False,
                WaitFor (First (GetByPlaceholder ''Email'')) 2000 True]\<rparr>)"
    by code_simp
  from first_strategy_wins [OF on gone' run']
  have "candidates HEALING_STRATEGIES emailContext =
     [First (GetByRole ''textbox'' (Some ''Email'')), First (GetByText ''Email'' True),
      First (GetByPlaceholder ''Email''), First (GetByTestId ''email-input''),
      First (GetByText ''Email'' False)]"
    by (simp add: emailContext_def)
  with on gone later run gone' later' run' show ?thesis by (intro conjI)
qed

text \<open>
  C8, as stated: a strategy whose context field is absent derives a query that matches
  zero elements on every possible page. It fails: the query is the type selector
  \<open>__nonexistent__\<close>, and on a page that has an element of that tag name it matches
  that element.
\<close>

theorem null_query_counterexample:
  "role noRoleContext = None \<and>
   matchCount [''html'', ''body'', ''__nonexistent__'']
     (locate (HEALING_STRATEGIES ! 0) noRoleContext) = Some 1"
  by code_simp

text \<open>
  C8, amended. A strategy whose context field is absent (or empty) derives the fixed
  query \<open>page.locator('__nonexistent__')\<close>, whatever the other fields of the context
  are; that query matches zero elements on every page that has no element of the tag
  name \<open>__nonexistent__\<close>.
\<close>

theorem null_query_is_sentinel:
  assumes "i < length HEALING_STRATEGIES"
    and "\<not> truthyStr (requiredField i ctx)"
  shows "locate (HEALING_STRATEGIES ! i) ctx = Css ''__nonexistent__'' \<and>
         (\<forall>tags. ''__nonexistent__'' \<notin> set tags \<longrightarrow>
            matchCount tags (locate (HEALING_STRATEGIES ! i) ctx) = Some 0)"
proof -
  have ident: "isIdentifier ''__nonexistent__''" by code_simp
  from assms(1) have "i < 5" by (simp add: HEALING_STRATEGIES_def)
  then consider "i = 0" | "i = 1" | "i = 2" | "i = 3" | "i = 4" by linarith
  then have loc: "locate (HEALING_STRATEGIES ! i) ctx = Css ''__nonexistent__''"
  proof cases
    case 1
    with assms(2) show ?thesis
      by (cases "role ctx")
        (simp_all add: HEALING_STRATEGIES_def requiredField_def locateByRole_def)
  next
    case 2
    with assms(2) show ?thesis
      by (cases "text' ctx")
        (simp_all add: HEALING_STRATEGIES_def requiredField_def locateByTextExact_def)
  next
    case 3
    with assms(2) show ?thesis
      by (cases "placeholder ctx")
        (simp_all add: HEALING_STRATEGIES_def requiredField_def locateByPlaceholder_def)
  next
    case 4
    with assms(2) show ?thesis
      by (cases "testId ctx")
        (simp_all add: HEALING_STRATEGIES_def requiredField_def locateByTestId_def)
  next
    case 5
    with assms(2) show ?thesis
      by (cases "text' ctx")
        (simp_all add: HEALING_STRATEGIES_def requiredField_def locateByTextPartial_def)
  qed
  have "\<forall>tags. ''__nonexistent__'' \<notin> set tags \<longrightarrow>
      matchCount tags (Css ''__nonexistent__'') = Some 0"
    using ident by (auto simp: filter_empty_conv)
  with loc show ?thesis by simp
qed

theorem null_query_is_sentinel_witness:
  "0 < length HEALING_STRATEGIES \<and>
   \<not> truthyStr (requiredField 0 noRoleContext) \<and>
   ''__nonexistent__'' \<notin> set [''html'', ''body'', ''button''] \<and>
   locate (HEALING_STRATEGIES ! 0) noRoleContext = Css ''__nonexistent__'' \<and>
   matchCount [''html'', ''body'', ''button''] (locate (HEALING_STRATEGIES ! 0) noRoleContext) =
     Some 0"
proof -
  have i: "0 < length HEALING_STRATEGIES" by (simp add: HEALING_STRATEGIES_def)
  have f: "\<not> truthyStr (requiredField 0 noRoleContext)"
    by (simp add: requiredField_def noRoleContext_def)
  have t: "''__nonexistent__'' \<notin> set [''html'', ''body'', ''button'']" by simp
  from null_query_is_sentinel [OF i f] t
  have "locate (HEALING_STRATEGIES ! 0) noRoleContext = Css ''__nonexistent__''"
    and "matchCount [''html'', ''body'', ''button'']
      (locate (HEALING_STRATEGIES ! 0) noRoleContext) = Some 0"
    by blast+
  with i f t show ?thesis by blast
qed

end
